theory Spec2Isabelle
  imports Main
begin

text \<open>
  A shallow embedding of \<open>smallsh.c\<close>, a small interactive shell: the expansion of \<open>$$\<close>
  (\<open>dollarsToPID\<close>), the tokenizing of a line, the child's redirections and program
  replacement (\<open>tryToRunCommand\<close>), the handler of \<open>SIGTSTP\<close> (\<open>catchSIGTSTP\<close>), the table
  of background process identifiers and one iteration of the loop of \<open>main\<close>. Definitions
  keep the names of the source. Memory is modelled where the source depends on it (the
  tokenizer writes into the buffer it scans); system calls are answered by parameters, and
  what the program does to the outside is recorded in a list of events.
\<close>

section \<open>C strings and the tokenizer of the C library\<close>

text \<open>
  Where the C program would have undefined behaviour the model stops with a fault: a null
  pointer passed where a string is read, a write past a fixed-size array, an array read
  outside its bounds, the use of a local that was never assigned, the use of a pointer to
  an object whose lifetime has ended.
\<close>

datatype fault = NullDeref | BufferOverflow | OutOfBounds | Uninitialised | DanglingPointer

text \<open>
  A buffer is the list of its bytes; the byte after its end counts as the terminator. The C
  string at offset \<open>p\<close> is \<open>cstr buf p\<close>.
\<close>

definition NUL :: char where
  "NUL = CHR 0x00"

definition cstr :: "char list \<Rightarrow> nat \<Rightarrow> string" where
  "cstr buf p = takeWhile (\<lambda>c. c \<noteq> NUL) (drop p buf)"

definition strlen :: "char list \<Rightarrow> nat" where
  "strlen buf = length (cstr buf 0)"

text \<open>
  \<open>strtok\<close>, with its saved position made explicit. \<open>strtok_at delims buf p\<close> scans from
  offset \<open>p\<close> (offset 0 for a call with a string, the saved position for a call with
  \<open>NULL\<close>): it skips delimiters; at the end of the string it returns no token; otherwise the
  token starts there and runs to the next delimiter, which is overwritten with the
  terminator. The result is the token's offset, the buffer and the new saved position.
\<close>

definition strtok_at :: "string \<Rightarrow> char list \<Rightarrow> nat \<Rightarrow> nat option \<times> char list \<times> nat" where
  "strtok_at delims buf p =
     (let s = p + length (takeWhile (\<lambda>c. c \<in> set delims) (cstr buf p)) in
      if cstr buf s = [] then (None, buf, s)
      else
        let e = s + length (takeWhile (\<lambda>c. c \<notin> set delims) (cstr buf s)) in
        if e < length buf \<and> buf ! e \<noteq> NUL
        then (Some s, buf[e := NUL], Suc e)
        else (Some s, buf, e))"

text \<open>
  \<open>strcat\<close> (and \<open>strcpy\<close>, with an empty destination) into an array of \<open>cap\<close> bytes: the
  result and its terminator must fit.
\<close>

definition strcat_cap :: "nat \<Rightarrow> string \<Rightarrow> string \<Rightarrow> fault + string" where
  "strcat_cap cap dst src =
     (if length dst + length src < cap then Inr (dst @ src) else Inl BufferOverflow)"

text \<open>
  \<open>sprintf(PIDAsString, "%d", processID)\<close>.
\<close>

fun dec_nat :: "nat \<Rightarrow> string" where
  "dec_nat n =
     (if n < 10 then [char_of (48 + n)]
      else dec_nat (n div 10) @ [char_of (48 + n mod 10)])"

definition sprintf_d :: "int \<Rightarrow> string" where
  "sprintf_d i = (if i < 0 then CHR ''-'' # dec_nat (nat (- i)) else dec_nat (nat i))"

text \<open>
  \<open>dollarsToPID\<close> (lines 232-282). \<open>marker_at\<close> is the condition of line 251,
  \<open>expand_marker\<close> the body of the conditional (lines 253-267) and \<open>dollars_loop\<close> the
  \<open>for\<close> loop, whose bound \<open>strlen(inputString)\<close> is evaluated again at every iteration, on
  the buffer as the tokenizer has left it. \<open>dollarsToPID\<close> gives the string at the address
  that the function returns, as it is at the moment of the return. When a marker was
  expanded that address is the one of the local array \<open>correctedString\<close> (lines 273-277),
  whose lifetime ends with the call: \<open>returns_correctedString\<close> tells whether this is so.
\<close>

definition marker_at :: "char list \<Rightarrow> nat \<Rightarrow> bool" where
  "marker_at buf position \<longleftrightarrow>
     buf ! position = CHR ''$'' \<and> position + 1 < strlen buf \<and> buf ! (position + 1) = CHR ''$''"

definition expand_marker :: "string \<Rightarrow> char list \<Rightarrow> string \<Rightarrow> fault + (char list \<times> string)" where
  "expand_marker PIDAsString buf correctedString =
     (case strtok_at ''$'' buf 0 of
        (None, _, _) \<Rightarrow> Inl NullDeref
      | (Some t1, buf1, save1) \<Rightarrow>
          (case strcat_cap 2048 correctedString (cstr buf1 t1) of
             Inl f \<Rightarrow> Inl f
           | Inr c1 \<Rightarrow>
               (case strcat_cap 2048 c1 PIDAsString of
                  Inl f \<Rightarrow> Inl f
                | Inr c2 \<Rightarrow>
                    (case strtok_at ''$'' buf1 save1 of
                       (None, buf2, _) \<Rightarrow> Inr (buf2, c2)
                     | (Some t2, buf2, _) \<Rightarrow>
                         (case strcat_cap 2048 c2 (cstr buf2 t2) of
                            Inl f \<Rightarrow> Inl f
                          | Inr c3 \<Rightarrow> Inr (buf2, c3))))))"

lemma strtok_at_length:
  "strtok_at delims buf p = (r, buf', s) \<Longrightarrow> length buf' = length buf"
  by (auto simp: strtok_at_def Let_def split: if_splits)

lemma expand_marker_length:
  "expand_marker pid buf c = Inr (buf', c') \<Longrightarrow> length buf' = length buf"
  by (auto simp: expand_marker_def split: prod.splits option.splits sum.splits dest!: strtok_at_length)

lemma strlen_le: "strlen buf \<le> length buf"
  unfolding strlen_def cstr_def
  by (metis drop0 length_takeWhile_le)

function dollars_loop ::
  "string \<Rightarrow> nat \<Rightarrow> char list \<Rightarrow> string \<Rightarrow> bool \<Rightarrow> fault + (char list \<times> string \<times> bool)" where
  "dollars_loop PIDAsString position buf correctedString stringNeededCorrecting =
     (if position < strlen buf then
        (if marker_at buf position then
           (case expand_marker PIDAsString buf correctedString of
              Inl f \<Rightarrow> Inl f
            | Inr (buf', c') \<Rightarrow> dollars_loop PIDAsString (Suc position) buf' c' True)
         else dollars_loop PIDAsString (Suc position) buf correctedString stringNeededCorrecting)
      else Inr (buf, correctedString, stringNeededCorrecting))"
  by pat_completeness auto
termination
proof (relation "measure (\<lambda>(pid, position, buf, c, n). length buf - position)")
  show "wf (measure (\<lambda>(pid, position, buf, c, n). length buf - position))" by simp
next
  fix PIDAsString :: string and position buf correctedString and stringNeededCorrecting :: bool
    and x2 :: "char list \<times> string" and x y
  assume "position < strlen buf" "expand_marker PIDAsString buf correctedString = Inr x2" "(x, y) = x2"
  then have "length x = length buf" "position < length buf"
    using expand_marker_length[of PIDAsString buf correctedString x y] strlen_le[of buf] by auto
  then show "((PIDAsString, Suc position, x, y, True), PIDAsString, position, buf, correctedString, stringNeededCorrecting)
       \<in> measure (\<lambda>(pid, position, buf, c, n). length buf - position)" by simp
next
  fix PIDAsString :: string and position buf and correctedString :: string and stringNeededCorrecting :: bool
  assume "position < strlen buf"
  then have "position < length buf" using strlen_le[of buf] by simp
  then show "((PIDAsString, Suc position, buf, correctedString, stringNeededCorrecting), PIDAsString, position, buf,
        correctedString, stringNeededCorrecting) \<in> measure (\<lambda>(pid, position, buf, c, n). length buf - position)"
    by simp
qed

declare dollars_loop.simps [simp del]

definition dollarsToPID :: "int \<Rightarrow> string \<Rightarrow> fault + string" where
  "dollarsToPID processID inputString =
     (case dollars_loop (sprintf_d processID) 0 inputString [] False of
        Inl f \<Rightarrow> Inl f
      | Inr (buf, correctedString, stringNeededCorrecting) \<Rightarrow>
          Inr (if stringNeededCorrecting then correctedString else cstr buf 0))"

definition returns_correctedString :: "int \<Rightarrow> string \<Rightarrow> bool" where
  "returns_correctedString processID inputString \<longleftrightarrow>
     (case dollars_loop (sprintf_d processID) 0 inputString [] False of
        Inl f \<Rightarrow> False
      | Inr (buf, correctedString, stringNeededCorrecting) \<Rightarrow> stringNeededCorrecting)"


section \<open>The argument array\<close>

text \<open>
  \<open>char* argumentArray[512]\<close> is a list of 512 optional strings, \<open>None\<close> for \<open>NULL\<close>.
  \<open>argv_of toks\<close> is the array that holds the tokens \<open>toks\<close> in its first entries.
  \<open>str_at\<close> reads an entry as a string, as \<open>strcmp\<close> and \<open>open\<close> do; \<open>find_last\<close> is the
  loop that looks for the last entry in use (lines 116-122 and 558-564), whose result
  variable is not initialised.
\<close>

abbreviation LF :: char where
  "LF \<equiv> CHR 0x0A"

type_synonym argv = "string option list"

definition argv_of :: "string list \<Rightarrow> argv" where
  "argv_of toks = map Some (take 512 toks) @ replicate (512 - length toks) None"

definition str_at :: "argv \<Rightarrow> int \<Rightarrow> fault + string" where
  "str_at a i =
     (if i < 0 \<or> 512 \<le> i then Inl OutOfBounds
      else case a ! nat i of None \<Rightarrow> Inl NullDeref | Some str \<Rightarrow> Inr str)"

definition find_last :: "argv \<Rightarrow> int option" where
  "find_last argumentArray =
     fold (\<lambda>index lastIndex. if argumentArray ! index \<noteq> None then Some (int index) else lastIndex)
       [0..<512] None"

lemma takeWhile_drop_prefix:
  "k \<le> length (takeWhile P xs) \<Longrightarrow> takeWhile P (drop k xs) = drop k (takeWhile P xs)"
proof (induction xs arbitrary: k)
  case Nil
  then show ?case by simp
next
  case (Cons x xs)
  then show ?case by (cases k) (auto split: if_splits)
qed

lemma cstr_advance:
  "k \<le> length (cstr buf p) \<Longrightarrow> cstr buf (p + k) = drop k (cstr buf p)"
  unfolding cstr_def
  using takeWhile_drop_prefix[of k "\<lambda>c. c \<noteq> NUL" "drop p buf"]
  by (simp add: add.commute)

lemma strtok_at_Some:
  assumes "strtok_at delims buf p = (Some t, buf', s')"
  shows "p < s' \<and> p < length buf \<and> length buf' = length buf"
proof -
  let ?k = "length (takeWhile (\<lambda>c. c \<in> set delims) (cstr buf p))"
  let ?s = "p + ?k"
  from assms have ne: "cstr buf ?s \<noteq> []"
    by (auto simp: strtok_at_def Let_def split: if_splits)
  then have "?s < length buf"
    by (cases "?s < length buf") (auto simp: cstr_def)
  moreover from assms have "?s \<le> s'"
    by (auto simp: strtok_at_def Let_def split: if_splits)
  moreover have "?s \<noteq> s'"
  proof
    assume eq: "?s = s'"
    with assms ne have z: "takeWhile (\<lambda>c. c \<notin> set delims) (cstr buf ?s) = []"
      by (auto simp: strtok_at_def Let_def split: if_splits)
    have "cstr buf ?s = drop ?k (cstr buf p)"
      by (rule cstr_advance) (rule length_takeWhile_le)
    also have "\<dots> = dropWhile (\<lambda>c. c \<in> set delims) (cstr buf p)"
      by (simp add: dropWhile_eq_drop)
    finally have d: "cstr buf ?s = dropWhile (\<lambda>c. c \<in> set delims) (cstr buf p)" .
    with ne have "hd (cstr buf ?s) \<notin> set delims"
      by (metis hd_dropWhile)
    with ne z show False
      by (cases "cstr buf ?s") auto
  qed
  ultimately show ?thesis
    using assms strtok_at_length[OF assms] by linarith
qed

text \<open>
  The tokenizing of the line in \<open>main\<close> (lines 452-469): the first token goes to entry 0,
  the loop stores every further result of the tokenizer, the final \<open>NULL\<close> included, while
  the position is at most 511. A token is stored as its text: the tokenizer terminates a
  token before it returns it and later calls only write behind it.
\<close>

function fill_arguments :: "char list \<Rightarrow> nat \<Rightarrow> nat option \<Rightarrow> nat \<Rightarrow> argv \<Rightarrow> argv" where
  "fill_arguments buf save token inputPositionToFill argumentArray =
     (case token of
        None \<Rightarrow> argumentArray
      | Some _ \<Rightarrow>
          (case strtok_at '' '' buf save of
             (token', buf', save') \<Rightarrow>
               if inputPositionToFill \<le> 511
               then fill_arguments buf' save' token' (Suc inputPositionToFill)
                      (argumentArray[inputPositionToFill := map_option (cstr buf') token'])
               else fill_arguments buf' save' token' inputPositionToFill argumentArray))"
  by pat_completeness auto
termination
proof (relation "measure (\<lambda>(buf, save, token, pos, a).
                    case token of None \<Rightarrow> 0 | Some _ \<Rightarrow> Suc (length buf - save))")
qed (auto split: option.splits dest!: strtok_at_Some sym[of "(_, _, _)" "strtok_at _ _ _"]
          dest: strtok_at_length)

declare fill_arguments.simps [simp del]

definition tokenize :: "string \<Rightarrow> argv" where
  "tokenize userInputFixed =
     (case strtok_at '' '' userInputFixed 0 of
        (token, buf, save) \<Rightarrow>
          fill_arguments buf save token 1 ((replicate 512 None)[0 := map_option (cstr buf) token]))"


section \<open>Observable events\<close>

text \<open>
  What the interpreter and its children do to the outside: the lines printed with
  \<open>printf\<close> (as structured messages, \<open>render\<close> gives the exact text), \<open>perror\<close>,
  \<open>write\<close> on standard output, and the system calls. The stores to the two globals
  shared with the signal handler are events as well, so that a trace shows their order
  relative to the system calls.
\<close>

datatype oflags = O_RDONLY | O_WRONLY | O_WRONLY_CREAT_TRUNC

datatype stream = Inherited | Opened string oflags

datatype signal = SIGINT | SIGTSTP | SIGKILL

datatype disposition = SIG_IGN | SIG_DFL | Handler

datatype wait_options = Blocking | WNOHANG

datatype message =
    Prompt
  | BackgroundPidIs int
  | BackgroundDoneExit int int
  | BackgroundDoneSignal int int
  | ExitValue int
  | TerminatedBySignal int
  | NoSuchFile string
  | CannotOpenInput string
  | CannotOpenOutput string


datatype event =
    Printf message
  | Perror string
  | WriteStdout string
  | Open string oflags bool
  | Dup2 nat
  | Execvp string "string list" bool
  | Sigaction signal disposition
  | Fork int
  | Waitpid int wait_options
  | SetTurnOffBackground bool
  | SetCurrentForegroundPID int
  | Chdir "string option"
  | Kill int signal

section \<open>The child: tryToRunCommand\<close>

text \<open>
  The platform answers \<open>open\<close> and \<open>execvp\<close>; its state \<open>'w\<close> is threaded through the
  calls. A child is its argument array, what its standard input and output are bound to,
  the two flags of \<open>tryToRunCommand\<close>, the events so far and the platform's state. The child
  ends when \<open>tryToRunCommand\<close> returns, when it exits, when it faults, or when \<open>execvp\<close>
  replaces the program.
\<close>

record 'w platform =
  sys_open :: "'w \<Rightarrow> string \<Rightarrow> oflags \<Rightarrow> bool \<times> 'w"
  sys_execvp :: "'w \<Rightarrow> string \<Rightarrow> string list \<Rightarrow> bool"

record 'w child =
  c_argv :: argv
  c_stdin :: stream
  c_stdout :: stream
  c_inputRedirected :: bool
  c_outputRedirected :: bool
  c_events :: "event list"
  c_world :: 'w

datatype 'w ending =
    Returned int "'w child"
  | Exited int "'w child"
  | Crashed fault "'w child"
  | Replaced string "string list" "'w child"

text \<open>
  \<open>open_input\<close> and \<open>open_output\<close> are the \<open>open\<close>, the test for \<open>- 1\<close> with its message
  and \<open>return -1\<close>, and the \<open>dup2\<close> (lines 137-139, 149-151, 164-166, 176-178, 192-194,
  200-202). \<open>redirect_pair os k\<close> is one of the two blocks that look for an operator at
  entry \<open>k - 1\<close> and a file name at entry \<open>k\<close> (lines 135-156 with \<open>k = lastIndex\<close>, lines
  162-183 with \<open>k = lastIndex - 2\<close>). \<open>execvp\<close> reads the array up to its first \<open>NULL\<close>
  (\<open>exec_argv\<close>): when none of the 512 entries is \<open>NULL\<close> it reads past the end of the
  array. A null program name is read by the C library.
\<close>

definition and_then :: "'e + 'a \<Rightarrow> ('a \<Rightarrow> 'e + 'b) \<Rightarrow> 'e + 'b" where
  "and_then r f = (case r of Inl e \<Rightarrow> Inl e | Inr x \<Rightarrow> f x)"

definition open_input :: "'w platform \<Rightarrow> string \<Rightarrow> 'w child \<Rightarrow> 'w ending + 'w child" where
  "open_input os path c =
     (case sys_open os (c_world c) path O_RDONLY of
        (False, w') \<Rightarrow>
          Inl (Returned (- 1)
                (c\<lparr>c_world := w',
                   c_events := c_events c @ [Open path O_RDONLY False, Printf (CannotOpenInput path)]\<rparr>))
      | (True, w') \<Rightarrow>
          Inr (c\<lparr>c_world := w',
                 c_events := c_events c @ [Open path O_RDONLY True, Dup2 0],
                 c_stdin := Opened path O_RDONLY\<rparr>))"

definition open_output :: "'w platform \<Rightarrow> string \<Rightarrow> oflags \<Rightarrow> 'w child \<Rightarrow> 'w ending + 'w child" where
  "open_output os path flags c =
     (case sys_open os (c_world c) path flags of
        (False, w') \<Rightarrow>
          Inl (Returned (- 1)
                (c\<lparr>c_world := w',
                   c_events := c_events c @ [Open path flags False, Printf (CannotOpenOutput path)]\<rparr>))
      | (True, w') \<Rightarrow>
          Inr (c\<lparr>c_world := w',
                 c_events := c_events c @ [Open path flags True, Dup2 1],
                 c_stdout := Opened path flags\<rparr>))"

definition redirect_pair :: "'w platform \<Rightarrow> int \<Rightarrow> 'w child \<Rightarrow> 'w ending + 'w child" where
  "redirect_pair os k c =
     (case str_at (c_argv c) (k - 1) of
        Inl f \<Rightarrow> Inl (Crashed f c)
      | Inr operator \<Rightarrow>
          if operator = ''<'' then
            (case str_at (c_argv c) k of
               Inl f \<Rightarrow> Inl (Crashed f c)
             | Inr path \<Rightarrow>
                 and_then (open_input os path c)
                   (\<lambda>c'. Inr (c'\<lparr>c_argv := (c_argv c')[nat k := None, nat (k - 1) := None],
                                 c_inputRedirected := True\<rparr>)))
          else if operator = ''>'' then
            (case str_at (c_argv c) k of
               Inl f \<Rightarrow> Inl (Crashed f c)
             | Inr path \<Rightarrow>
                 and_then (open_output os path O_WRONLY_CREAT_TRUNC c)
                   (\<lambda>c'. Inr (c'\<lparr>c_argv := (c_argv c')[nat k := None, nat (k - 1) := None],
                                 c_outputRedirected := True\<rparr>)))
          else Inr c)"

definition exec_argv :: "argv \<Rightarrow> fault + string list" where
  "exec_argv a =
     (if None \<in> set (take 512 a) then Inr (map the (takeWhile (\<lambda>x. x \<noteq> None) a))
      else Inl OutOfBounds)"

definition call_execvp :: "'w platform \<Rightarrow> 'w child \<Rightarrow> 'w ending" where
  "call_execvp os c =
     (case c_argv c ! 0 of
        None \<Rightarrow> Crashed NullDeref c
      | Some prog \<Rightarrow>
          (case exec_argv (c_argv c) of
             Inl f \<Rightarrow> Crashed f c
           | Inr args \<Rightarrow>
               if sys_execvp os (c_world c) prog args
               then Replaced prog args (c\<lparr>c_events := c_events c @ [Execvp prog args True]\<rparr>)
               else Returned (- 1)
                      (c\<lparr>c_events := c_events c @
                           [Execvp prog args False, Printf (NoSuchFile prog)]\<rparr>)))"

text \<open>
  \<open>tryToRunCommand\<close> (lines 96-214): \<open>redirect_and_exec\<close> is the function from line 131 on,
  \<open>lastIndex\<close> being the index after the removal of the background marker.
  \<open>child_process\<close> is what the child does after \<open>fork\<close> (lines 586-592 and 623-634): it
  sets its signal dispositions, calls \<open>tryToRunCommand\<close> and, if that returns, exits with
  status 1.
\<close>

definition redirect_and_exec :: "'w platform \<Rightarrow> 'w child \<Rightarrow> int \<Rightarrow> bool \<Rightarrow> 'w ending" where
  "redirect_and_exec os c2 lastIndex isBackground =
     (case
        and_then (if lastIndex \<ge> 1 then redirect_pair os lastIndex c2 else Inr c2) (\<lambda>c3.
        and_then (if lastIndex \<ge> 3 then redirect_pair os (lastIndex - 2) c3 else Inr c3) (\<lambda>c4.
        and_then (if isBackground \<and> \<not> c_inputRedirected c4
                  then open_input os ''/dev/null'' c4 else Inr c4) (\<lambda>c5.
        and_then (if isBackground \<and> \<not> c_outputRedirected c5
                  then open_output os ''/dev/null'' O_WRONLY c5 else Inr c5) (\<lambda>c6.
        Inl (call_execvp os c6)))))
      of Inl e \<Rightarrow> e | Inr c \<Rightarrow> Returned (- 1) c)"

definition tryToRunCommand :: "'w platform \<Rightarrow> 'w child \<Rightarrow> bool \<Rightarrow> 'w ending" where
  "tryToRunCommand os c0 isBackground =
     (case find_last (c_argv c0) of
        None \<Rightarrow> Crashed Uninitialised c0
      | Some found \<Rightarrow>
          (let c1 = c0\<lparr>c_inputRedirected := False, c_outputRedirected := False\<rparr>;
               c2 = (if isBackground then c1\<lparr>c_argv := (c_argv c1)[nat found := None]\<rparr> else c1);
               lastIndex = (if isBackground then found - 1 else found)
           in redirect_and_exec os c2 lastIndex isBackground))"

definition child_process :: "'w platform \<Rightarrow> 'w \<Rightarrow> argv \<Rightarrow> bool \<Rightarrow> 'w ending" where
  "child_process os w argumentArray isBackground =
     (let c0 = \<lparr>c_argv = argumentArray, c_stdin = Inherited, c_stdout = Inherited,
                c_inputRedirected = False, c_outputRedirected = False,
                c_events = (if isBackground then [Sigaction SIGTSTP SIG_IGN]
                            else [Sigaction SIGINT SIG_DFL, Sigaction SIGTSTP SIG_IGN]),
                c_world = w\<rparr>
      in case tryToRunCommand os c0 isBackground of
           Returned r c \<Rightarrow> Exited 1 c
         | other \<Rightarrow> other)"


section \<open>The interpreter state, the signal handler and the job table\<close>

text \<open>
  The macros of \<open>sys/wait.h\<close> on a wait status, in the encoding of the GNU C library: the
  low seven bits are the terminating signal (0 for a normal exit, 127 for a stopped
  process), the next eight bits the exit status.
\<close>

definition WTERMSIG :: "int \<Rightarrow> int" where
  "WTERMSIG status = status mod 128"

definition WEXITSTATUS :: "int \<Rightarrow> int" where
  "WEXITSTATUS status = (status div 256) mod 256"

definition WIFEXITED :: "int \<Rightarrow> bool" where
  "WIFEXITED status \<longleftrightarrow> WTERMSIG status = 0"

definition WIFSIGNALED :: "int \<Rightarrow> bool" where
  "WIFSIGNALED status \<longleftrightarrow> 1 \<le> WTERMSIG status \<and> WTERMSIG status \<le> 126"

text \<open>
  The state of the interpreter: the three globals (\<open>turnOffBackground\<close>,
  \<open>currentForegroundPID\<close>, \<open>foreChildExitMethod\<close>), the locals of \<open>main\<close> that live across
  iterations, and the trace. \<open>exitStatusCode\<close> and \<open>termSignal\<close> are not initialised by the
  source. \<open>initial_shell\<close> is the state when the loop is entered (lines 37-39 and 308-376).
\<close>

record shell =
  backgroundPIDs :: "int list"
  nextOpenPosition :: nat
  backgroundChildExitMethod :: int
  turnOffBackground :: bool
  currentForegroundPID :: int
  foreChildExitMethod :: int
  noForegroundProcessesRun :: bool
  killedByExit :: bool
  killedBySignal :: bool
  exitStatusCode :: "int option"
  termSignal :: "int option"
  trace :: "event list"

definition initial_shell :: shell where
  "initial_shell =
     \<lparr>backgroundPIDs = replicate 200 (- 5), nextOpenPosition = 0,
      backgroundChildExitMethod = - 5, turnOffBackground = False,
      currentForegroundPID = 0, foreChildExitMethod = - 5,
      noForegroundProcessesRun = True, killedByExit = False, killedBySignal = False,
      exitStatusCode = None, termSignal = None,
      trace = [Sigaction SIGINT SIG_IGN, Sigaction SIGTSTP Handler]\<rparr>"

definition emit :: "event list \<Rightarrow> shell \<Rightarrow> shell" where
  "emit evs s = s\<lparr>trace := trace s @ evs\<rparr>"

text \<open>
  \<open>catchSIGTSTP\<close> (lines 59-77). \<open>waited\<close> is the status that the handler's \<open>waitpid\<close>
  stores, if it stores one.
\<close>

definition catchSIGTSTP :: "int option \<Rightarrow> shell \<Rightarrow> shell" where
  "catchSIGTSTP waited s =
     (let s1 = emit [Waitpid (currentForegroundPID s) Blocking]
                 (s\<lparr>foreChildExitMethod :=
                      (case waited of None \<Rightarrow> foreChildExitMethod s | Some status \<Rightarrow> status)\<rparr>)
      in if turnOffBackground s1 then
           emit [WriteStdout (take 30 (LF # ''Exiting foreground-only mode'' @ [LF]))]
             (emit [SetTurnOffBackground False] (s1\<lparr>turnOffBackground := False\<rparr>))
         else
           emit [WriteStdout (take 50 (LF # ''Entering foreground-only mode (& is now ignored)'' @ [LF]))]
             (emit [SetTurnOffBackground True] (s1\<lparr>turnOffBackground := True\<rparr>)))"

text \<open>
  The job table. \<open>register_background\<close> is the parent's side of a background \<open>fork\<close> (lines
  595-607), \<open>reap_slot\<close> the body of the reaping loop for one slot and \<open>reap_pass\<close> the loop
  (lines 389-417). \<open>wait reaperIndex pid\<close> is the answer of \<open>waitpid(pid, ..., WNOHANG)\<close>
  for that slot: the returned value and the status stored, if any.
\<close>

definition register_background :: "int \<Rightarrow> shell \<Rightarrow> shell" where
  "register_background backgroundChildPID s =
     (emit [Printf (BackgroundPidIs backgroundChildPID)] s)
       \<lparr>backgroundPIDs := (backgroundPIDs s)[nextOpenPosition s := backgroundChildPID],
        nextOpenPosition := (if nextOpenPosition s = 199 then 0 else nextOpenPosition s + 1)\<rparr>"

definition reap_slot :: "(nat \<Rightarrow> int \<Rightarrow> int \<times> int option) \<Rightarrow> nat \<Rightarrow> shell \<Rightarrow> shell" where
  "reap_slot wait reaperIndex s =
     (if backgroundPIDs s ! reaperIndex \<noteq> - 5 then
        (case wait reaperIndex (backgroundPIDs s ! reaperIndex) of
           (dummyPID, stored) \<Rightarrow>
             (let s1 = emit [Waitpid (backgroundPIDs s ! reaperIndex) WNOHANG]
                         (s\<lparr>backgroundChildExitMethod :=
                              (case stored of None \<Rightarrow> backgroundChildExitMethod s
                               | Some status \<Rightarrow> status)\<rparr>)
              in if dummyPID \<noteq> 0 then
                   (let s2 = (if WIFEXITED (backgroundChildExitMethod s1) then
                                (emit [Printf (BackgroundDoneExit (backgroundPIDs s1 ! reaperIndex)
                                                 (WEXITSTATUS (backgroundChildExitMethod s1)))] s1)
                                  \<lparr>backgroundPIDs := (backgroundPIDs s1)[reaperIndex := - 5]\<rparr>
                              else s1);
                        s3 = (if WIFSIGNALED (backgroundChildExitMethod s2) then
                                (emit [Printf (BackgroundDoneSignal (backgroundPIDs s2 ! reaperIndex)
                                                 (WTERMSIG (backgroundChildExitMethod s2)))] s2)
                                  \<lparr>backgroundPIDs := (backgroundPIDs s2)[reaperIndex := - 5]\<rparr>
                              else s2)
                    in s3\<lparr>backgroundChildExitMethod := 0\<rparr>)
                 else s1))
      else s)"

definition reap_pass :: "(nat \<Rightarrow> int \<Rightarrow> int \<times> int option) \<Rightarrow> shell \<Rightarrow> shell" where
  "reap_pass wait s = fold (reap_slot wait) [0..<200] s"

section \<open>One iteration of the interpreter loop\<close>

text \<open>
  A \<open>turn\<close> holds what the platform answers during one iteration of the \<open>do\<close> loop of
  \<open>main\<close>: the answers of the reaping pass, the number of \<open>getline\<close> calls that failed
  before one succeeded and the line it read, the interpreter's process identifier, the
  \<open>HOME\<close> variable, the working directory (\<open>None\<close> when \<open>getcwd\<close> fails; the buffer is
  then taken to be unchanged), what \<open>fork\<close> returns and the status stored by the blocking
  \<open>waitpid\<close>. An iteration continues the loop, ends the interpreter with an exit code,
  faults, or is the child's side of \<open>fork\<close>.
\<close>

record turn =
  reap_waitpid :: "nat \<Rightarrow> int \<Rightarrow> int \<times> int option"
  failed_reads :: nat
  getline_ret :: string
  getpid_ret :: int
  getenv_HOME :: "string option"
  getcwd_ret :: "string option"
  fork_ret :: int
  fg_waitpid :: "int option"

datatype outcome =
    Continue shell
  | Exit int shell
  | Fault fault shell
  | InChild bool argv shell

text \<open>
  The branches of the dispatch: \<open>shutdown\<close> is the \<open>exit\<close> built-in with the end of \<open>main\<close>
  (lines 476-480 and 680-691), \<open>change_directory\<close> the \<open>cd\<close> with an argument (lines
  489-522), \<open>status_command\<close> lines 532-552, \<open>strip_ampersand\<close> lines 567-574,
  \<open>background_branch\<close> lines 579-608, \<open>foreground_branch\<close> lines 615-658 and
  \<open>spawn_command\<close> the whole last branch (lines 554-660).
\<close>

definition shutdown :: "shell \<Rightarrow> outcome" where
  "shutdown s =
     Exit 0 (emit (concat (map (\<lambda>reaperIndex.
                     if backgroundPIDs s ! reaperIndex \<noteq> - 5
                     then [Kill (backgroundPIDs s ! reaperIndex) SIGKILL] else []) [0..<200])) s)"

definition chdir_token :: "shell \<Rightarrow> string \<Rightarrow> outcome" where
  "chdir_token s pathToOpen =
     (case strtok_at [LF] pathToOpen 0 of
        (filePathToken, buf, _) \<Rightarrow> Continue (emit [Chdir (map_option (cstr buf) filePathToken)] s))"

definition change_directory :: "shell \<Rightarrow> turn \<Rightarrow> string \<Rightarrow> outcome" where
  "change_directory s t arg =
     (case strcat_cap 2048 [] arg of
        Inl f \<Rightarrow> Fault f s
      | Inr filePath \<Rightarrow>
          if (case filePath of [] \<Rightarrow> False | c # _ \<Rightarrow> c = CHR ''/'') then
            (case getenv_HOME t of
               None \<Rightarrow> Fault NullDeref s
             | Some home \<Rightarrow>
                 (case and_then (strcat_cap 2048 [] home) (\<lambda>p. strcat_cap 2048 p filePath) of
                    Inl f \<Rightarrow> Fault f s
                  | Inr pathToOpen \<Rightarrow> chdir_token s pathToOpen))
          else
            (case and_then (strcat_cap 2048 (case getcwd_ret t of None \<Rightarrow> [] | Some cwd \<Rightarrow> cwd) ''/'')
                    (\<lambda>p. strcat_cap 2048 p filePath) of
               Inl f \<Rightarrow> Fault f s
             | Inr pathToOpen \<Rightarrow> chdir_token s pathToOpen))"

definition status_command :: "shell \<Rightarrow> outcome" where
  "status_command s =
     (if noForegroundProcessesRun s then Continue (emit [Printf (ExitValue 0)] s)
      else if killedByExit s then
        (case exitStatusCode s of
           None \<Rightarrow> Fault Uninitialised s
         | Some code \<Rightarrow> Continue (emit [Printf (ExitValue code)] s))
      else if killedBySignal s then
        (case termSignal s of
           None \<Rightarrow> Fault Uninitialised s
         | Some n \<Rightarrow> Continue (emit [Printf (TerminatedBySignal n)] s))
      else Continue s)"

definition strip_ampersand :: "bool \<Rightarrow> argv \<Rightarrow> int \<Rightarrow> fault + argv \<times> int" where
  "strip_ampersand off argumentArray lastIndex =
     (if off then
        and_then (str_at argumentArray lastIndex)
          (\<lambda>lastArg. if lastArg = ''&''
                      then Inr (argumentArray[nat lastIndex := None], lastIndex - 1)
                      else Inr (argumentArray, lastIndex))
      else Inr (argumentArray, lastIndex))"

definition background_branch :: "shell \<Rightarrow> turn \<Rightarrow> argv \<Rightarrow> outcome" where
  "background_branch s t argumentArray =
     (let s1 = emit [Fork (fork_ret t)] s in
      if fork_ret t = - 1 then
        Exit 1 (emit [Perror (''Major problem creating background child!'' @ [LF])] s1)
      else if fork_ret t = 0 then InChild True argumentArray s1
      else Continue (register_background (fork_ret t) s1))"

definition foreground_branch :: "shell \<Rightarrow> turn \<Rightarrow> argv \<Rightarrow> outcome" where
  "foreground_branch s t argumentArray =
     (let s1 = emit [Fork (fork_ret t)] s in
      if fork_ret t = - 1 then
        Exit 1 (emit [Perror (''Major problem creating child!'' @ [LF])] s1)
      else if fork_ret t = 0 then InChild False argumentArray s1
      else
        (let s2 = emit [SetCurrentForegroundPID (fork_ret t)] (s1\<lparr>currentForegroundPID := fork_ret t\<rparr>);
             s3 = emit [Waitpid (fork_ret t) Blocking]
                    (s2\<lparr>foreChildExitMethod :=
                          (case fg_waitpid t of None \<Rightarrow> foreChildExitMethod s2 | Some status \<Rightarrow> status),
                        noForegroundProcessesRun := False\<rparr>);
             s4 = (if WIFSIGNALED (foreChildExitMethod s3) then
                     (emit [Printf (TerminatedBySignal (WTERMSIG (foreChildExitMethod s3)))] s3)
                       \<lparr>termSignal := Some (WTERMSIG (foreChildExitMethod s3)),
                        killedBySignal := True, killedByExit := False\<rparr>
                   else s3);
             s5 = (if WIFEXITED (foreChildExitMethod s4) then
                     s4\<lparr>exitStatusCode := Some (WEXITSTATUS (foreChildExitMethod s4)),
                        killedBySignal := False, killedByExit := True\<rparr>
                   else s4)
         in Continue s5))"

definition spawn_command :: "shell \<Rightarrow> turn \<Rightarrow> argv \<Rightarrow> outcome" where
  "spawn_command s t argumentArray =
     (case find_last argumentArray of
        None \<Rightarrow> Fault Uninitialised s
      | Some found \<Rightarrow>
          (case strip_ampersand (turnOffBackground s) argumentArray found of
             Inl f \<Rightarrow> Fault f s
           | Inr (stripped, lastIndex) \<Rightarrow>
               (case str_at stripped lastIndex of
                  Inl f \<Rightarrow> Fault f s
                | Inr lastArg \<Rightarrow>
                    if lastArg = ''&'' then background_branch s t stripped
                    else foreground_branch s t stripped)))"

text \<open>
  \<open>dispatch\<close> is lines 473-662, \<open>parse_line\<close> lines 440-469 and \<open>step\<close> the body of the
  loop. After the expansion of a marker \<open>userInputFixed\<close> points to the local array of
  \<open>dollarsToPID\<close>, which no longer exists when the tokenizer is called with it (line 452):
  \<open>parse_line\<close> stops there with a fault. A run is a list of stimuli: lines read, and
  deliveries of \<open>SIGTSTP\<close> while the interpreter waits at the prompt.
\<close>

definition dispatch :: "shell \<Rightarrow> turn \<Rightarrow> argv \<Rightarrow> outcome" where
  "dispatch s t argumentArray =
     (case argumentArray ! 0 of
        None \<Rightarrow> Fault NullDeref s
      | Some firstArgument \<Rightarrow>
          if 2048 \<le> length firstArgument then Fault BufferOverflow s
          else if firstArgument = ''exit'' then shutdown s
          else if firstArgument = ''cd'' \<and> argumentArray ! 1 = None
            then Continue (emit [Chdir (getenv_HOME t)] s)
          else if firstArgument = ''cd'' \<and> argumentArray ! 1 \<noteq> None
            then change_directory s t (the (argumentArray ! 1))
          else if firstArgument = ''#'' \<or> firstArgument = [CHR ''#'', LF]
                  \<or> (case firstArgument of [] \<Rightarrow> False | c # _ \<Rightarrow> c = CHR ''#'')
            then Continue s
          else if firstArgument = ''status'' then status_command s
          else spawn_command s t argumentArray)"

definition parse_line :: "int \<Rightarrow> string \<Rightarrow> fault + argv option" where
  "parse_line processID userInput =
     (case strtok_at [LF] userInput 0 of
        (None, _, _) \<Rightarrow> Inr None
      | (Some token, buf, _) \<Rightarrow>
          (case dollarsToPID processID (cstr buf token) of
             Inl f \<Rightarrow> Inl f
           | Inr userInputFixed \<Rightarrow>
               if returns_correctedString processID (cstr buf token) then Inl DanglingPointer
               else Inr (Some (tokenize userInputFixed))))"

definition step :: "shell \<Rightarrow> turn \<Rightarrow> outcome" where
  "step s t =
     (let s1 = reap_pass (reap_waitpid t) s;
          s2 = emit (replicate (Suc (failed_reads t)) (Printf Prompt)) s1
      in case parse_line (getpid_ret t) (getline_ret t) of
           Inl f \<Rightarrow> Fault f s2
         | Inr None \<Rightarrow> Continue s2
         | Inr (Some argumentArray) \<Rightarrow> dispatch s2 t argumentArray)"

datatype stimulus = Line turn | Signal_TSTP "int option"

fun run :: "shell \<Rightarrow> stimulus list \<Rightarrow> outcome" where
  "run s [] = Continue s"
| "run s (Signal_TSTP waited # rest) = run (catchSIGTSTP waited s) rest"
| "run s (Line t # rest) =
     (case step s t of Continue s' \<Rightarrow> run s' rest | other \<Rightarrow> other)"


section \<open>Observers used to state the claims\<close>

fun reported_pid :: "event \<Rightarrow> int option" where
  "reported_pid (Printf (BackgroundDoneExit p _)) = Some p"
| "reported_pid (Printf (BackgroundDoneSignal p _)) = Some p"
| "reported_pid _ = None"

definition reported_pids :: "event list \<Rightarrow> int list" where
  "reported_pids tr = List.map_filter reported_pid tr"

fun is_registration :: "event \<Rightarrow> bool" where
  "is_registration (Printf (BackgroundPidIs _)) = True"
| "is_registration _ = False"

definition spawns_issued :: "event list \<Rightarrow> nat" where
  "spawns_issued tr = length (filter is_registration tr)"

definition completions_reaped :: "event list \<Rightarrow> nat" where
  "completions_reaped tr = length (reported_pids tr)"

definition occupied_slots :: "shell \<Rightarrow> nat" where
  "occupied_slots s = length (filter (\<lambda>p. p \<noteq> - 5) (backgroundPIDs s))"

fun state_of :: "outcome \<Rightarrow> shell" where
  "state_of (Continue s) = s"
| "state_of (Exit _ s) = s"
| "state_of (Fault _ s) = s"
| "state_of (InChild _ _ s) = s"

text \<open>
  A turn \<open>overwrites\<close> when it registers a background child (it prints one more
  ``background pid is'' line) and the slot at the insertion position still holds an
  identifier after the reaping pass of that turn: the registration then stores over that
  identifier. \<open>overwritten s stimuli\<close> counts the turns of the run that do so.
\<close>

definition overwrites :: "shell \<Rightarrow> turn \<Rightarrow> bool" where
  "overwrites s t \<longleftrightarrow>
     (case step s t of
        Continue s' \<Rightarrow>
          spawns_issued (trace s') = Suc (spawns_issued (trace s))
          \<and> backgroundPIDs (reap_pass (reap_waitpid t) s) ! nextOpenPosition s \<noteq> - 5
      | _ \<Rightarrow> False)"

fun overwritten :: "shell \<Rightarrow> stimulus list \<Rightarrow> nat" where
  "overwritten s [] = 0"
| "overwritten s (Signal_TSTP waited # rest) = overwritten (catchSIGTSTP waited s) rest"
| "overwritten s (Line t # rest) =
     (case step s t of
        Continue s' \<Rightarrow> (if overwrites s t then 1 else 0) + overwritten s' rest
      | _ \<Rightarrow> 0)"








fun world_after :: "'w platform \<Rightarrow> 'w \<Rightarrow> (string \<times> oflags) list \<Rightarrow> 'w" where
  "world_after os w [] = w"
| "world_after os w ((path, fl) # rest) = world_after os (snd (sys_open os w path fl)) rest"

fun open_events :: "(string \<times> oflags) list \<Rightarrow> event list" where
  "open_events [] = []"
| "open_events ((path, fl) # rest) =
     [Open path fl True, Dup2 (if fl = O_RDONLY then 0 else 1)] @ open_events rest"

fun keeps_stdout :: "(string \<times> oflags) list \<Rightarrow> bool" where
  "keeps_stdout [] = True"
| "keeps_stdout ((path, fl) # rest) = (fl = O_RDONLY \<and> keeps_stdout rest)"



fun events_of :: "'w ending \<Rightarrow> event list" where
  "events_of (Returned _ c) = c_events c"
| "events_of (Exited _ c) = c_events c"
| "events_of (Crashed _ c) = c_events c"
| "events_of (Replaced _ _ c) = c_events c"

text \<open>
  A concrete platform for examples: the world is the list of existing files; opening for
  reading or plain writing succeeds on an existing file, opening with creation always
  succeeds, and a handful of programs can be executed.
\<close>

definition example_os :: "string list platform" where
  "example_os =
     \<lparr>sys_open = (\<lambda>files path flags.
                    if flags = O_WRONLY_CREAT_TRUNC then (True, path # files)
                    else (path \<in> set files, files)),
      sys_execvp = (\<lambda>files prog args. prog \<in> set [''cat'', ''echo'', ''grep'', ''ls'', ''sleep'', ''wc''])\<rparr>"

definition fresh_child :: "'w \<Rightarrow> argv \<Rightarrow> 'w child" where
  "fresh_child w argumentArray =
     \<lparr>c_argv = argumentArray, c_stdin = Inherited, c_stdout = Inherited,
      c_inputRedirected = False, c_outputRedirected = False, c_events = [], c_world = w\<rparr>"

text \<open>
  A concrete turn for examples: the user types \<open>text\<close>, no background child has finished,
  the shell's own process identifier is 1234, \<open>fork\<close> returns \<open>child\<close> and a foreground child
  exits with status 0.
\<close>

definition typed :: "string \<Rightarrow> int \<Rightarrow> turn" where
  "typed text child =
     \<lparr>reap_waitpid = (\<lambda>reaperIndex pid. (0, None)), failed_reads = 0,
      getline_ret = text @ [LF], getpid_ret = 1234,
      getenv_HOME = Some ''/home/user'', getcwd_ret = Some ''/tmp'',
      fork_ret = child, fg_waitpid = Some 0\<rparr>"

section \<open>Predicates used in the proofs\<close>

text \<open>
  \<open>same_jobs\<close>: a step leaves the job table and the counts of spawns and completions
  alone. \<open>reaped_from\<close>: a step only clears slots, and reports each slot that it clears.
  \<open>job_step\<close>: an iteration after its reaping pass either leaves the jobs alone or
  registers one identifier at the insertion position. \<open>jobs_inv\<close>: the invariant of the
  job table along a run. \<open>follows\<close>: a stage of the child has made the given opens, with
  the result that the platform's answers determine, and \<open>Q\<close> holds if it went through.
  \<open>cleared args\<close>: the argument array after both pairs have been looked at.
  \<open>clean\<close>: no failed \<open>open\<close> and no \<open>execvp\<close> among the events; \<open>good_ending\<close>: how the
  events of a child end, for each way the child ends. \<open>exit_ok\<close>: an outcome that is an
  exit has code 1, comes from a failed \<open>fork\<close> and was reported.
\<close>

definition same_jobs :: "shell \<Rightarrow> shell \<Rightarrow> bool" where
  "same_jobs s s' \<longleftrightarrow>
     backgroundPIDs s' = backgroundPIDs s \<and> nextOpenPosition s' = nextOpenPosition s
     \<and> spawns_issued (trace s') = spawns_issued (trace s)
     \<and> completions_reaped (trace s') = completions_reaped (trace s)"

definition reaped_from :: "shell \<Rightarrow> shell \<Rightarrow> bool" where
  "reaped_from s s' \<longleftrightarrow>
     length (backgroundPIDs s') = length (backgroundPIDs s)
     \<and> nextOpenPosition s' = nextOpenPosition s
     \<and> spawns_issued (trace s') = spawns_issued (trace s)
     \<and> occupied_slots s' + completions_reaped (trace s')
         = occupied_slots s + completions_reaped (trace s)
     \<and> (\<forall>j<length (backgroundPIDs s). backgroundPIDs s ! j = - 5 \<longrightarrow> backgroundPIDs s' ! j = - 5)"

definition job_step :: "shell \<Rightarrow> outcome \<Rightarrow> bool" where
  "job_step s out \<longleftrightarrow>
     same_jobs s (state_of out)
     \<or> (\<exists>p. p \<noteq> - 5 \<and> out = Continue (state_of out)
          \<and> backgroundPIDs (state_of out) = (backgroundPIDs s)[nextOpenPosition s := p]
          \<and> nextOpenPosition (state_of out) = (if nextOpenPosition s = 199 then 0 else nextOpenPosition s + 1)
          \<and> spawns_issued (trace (state_of out)) = Suc (spawns_issued (trace s))
          \<and> completions_reaped (trace (state_of out)) = completions_reaped (trace s))"

definition jobs_inv :: "shell \<Rightarrow> bool" where
  "jobs_inv s \<longleftrightarrow>
     length (backgroundPIDs s) = 200
     \<and> nextOpenPosition s = spawns_issued (trace s) mod 200
     \<and> (\<forall>i<200. spawns_issued (trace s) \<le> i \<longrightarrow> backgroundPIDs s ! i = - 5)"



fun is_failure :: "event \<Rightarrow> bool" where
  "is_failure (Open _ _ ok) = (\<not> ok)"
| "is_failure (Execvp _ _ _) = True"
| "is_failure _ = False"

definition clean :: "event list \<Rightarrow> bool" where
  "clean evs \<longleftrightarrow> list_all (\<lambda>e. \<not> is_failure e) evs"

fun good_ending :: "'w ending \<Rightarrow> bool" where
  "good_ending (Returned r c) \<longleftrightarrow>
     r = - 1 \<and> (\<exists>pre. clean pre \<and>
       ((\<exists>path. c_events c = pre @ [Open path O_RDONLY False, Printf (CannotOpenInput path)])
        \<or> (\<exists>path fl. fl \<noteq> O_RDONLY \<and> c_events c = pre @ [Open path fl False, Printf (CannotOpenOutput path)])
        \<or> (\<exists>prog args. c_events c = pre @ [Execvp prog args False, Printf (NoSuchFile prog)])))"
| "good_ending (Crashed f c) \<longleftrightarrow> clean (c_events c)"
| "good_ending (Replaced prog args c) \<longleftrightarrow> (\<exists>pre. clean pre \<and> c_events c = pre @ [Execvp prog args True])"
| "good_ending (Exited r c) \<longleftrightarrow> False"

definition stage_ok :: "'w ending + 'w child \<Rightarrow> bool" where
  "stage_ok r \<longleftrightarrow> (case r of Inl e \<Rightarrow> good_ending e | Inr c \<Rightarrow> clean (c_events c))"

definition exit_ok :: "turn \<Rightarrow> outcome \<Rightarrow> bool" where
  "exit_ok t out \<longleftrightarrow>
     (case out of
        Exit code s' \<Rightarrow> code = 1 \<and> fork_ret t = - 1 \<and> (\<exists>msg. last (trace s') = Perror msg)
      | _ \<Rightarrow> True)"

section \<open>Lemmas about the expansion of the marker\<close>

lemma cstr_clean: "NUL \<notin> set str \<Longrightarrow> cstr str 0 = str"
  by (auto simp: cstr_def takeWhile_eq_all_conv)

lemma strlen_clean: "NUL \<notin> set str \<Longrightarrow> strlen str = length str"
  by (simp add: strlen_def cstr_clean)

lemma dollars_loop_no_marker:
  assumes "NUL \<notin> set str"
    and "\<forall>i. position \<le> i \<and> Suc i < length str \<longrightarrow> \<not> (str ! i = CHR ''$'' \<and> str ! Suc i = CHR ''$'')"
  shows "dollars_loop pid position str c needed = Inr (str, c, needed)"
  using assms(2)
proof (induction "length str - position" arbitrary: position)
  case 0
  then have "\<not> position < strlen str" using assms(1) by (simp add: strlen_clean)
  then show ?case by (subst dollars_loop.simps) simp
next
  case (Suc n)
  then have lt: "position < strlen str" using assms(1) by (simp add: strlen_clean)
  have nm: "\<not> marker_at str position"
    using Suc.prems assms(1) by (auto simp: marker_at_def strlen_clean)
  have "dollars_loop pid (Suc position) str c needed = Inr (str, c, needed)"
    using Suc by (intro Suc.hyps(1)) auto
  then show ?case
    using lt nm by (subst dollars_loop.simps) simp
qed

lemma dollarsToPID_without_marker:
  assumes "NUL \<notin> set str"
    and "\<forall>i. Suc i < length str \<longrightarrow> \<not> (str ! i = CHR ''$'' \<and> str ! Suc i = CHR ''$'')"
  shows "dollarsToPID pid str = Inr str"
  using dollars_loop_no_marker[OF assms(1), of 0] assms
  by (simp add: dollarsToPID_def cstr_clean)

lemma dollars_loop_skip_prefix:
  assumes "NUL \<notin> set buf" and "position \<le> length pre" and "CHR ''$'' \<notin> set pre"
    and "buf = pre @ rest" and "rest \<noteq> []"
  shows "dollars_loop pid position buf c needed = dollars_loop pid (length pre) buf c needed"
  using assms(2)
proof (induction "length pre - position" arbitrary: position)
  case 0
  then show ?case by simp
next
  case (Suc n)
  then have p: "position < length pre" by simp
  then have lt: "position < strlen buf" using assms(1,4) by (simp add: strlen_clean)
  have "buf ! position = pre ! position" using p assms(4) by (simp add: nth_append)
  then have "buf ! position \<noteq> CHR ''$''" using p assms(3) by (metis nth_mem)
  then have nm: "\<not> marker_at buf position" by (simp add: marker_at_def)
  have "dollars_loop pid (Suc position) buf c needed = dollars_loop pid (length pre) buf c needed"
    using Suc p by (intro Suc.hyps(1)) auto
  then show ?case
    using lt nm by (subst dollars_loop.simps) simp
qed

lemma cstr_cut:
  "NUL \<notin> set pre \<Longrightarrow> cstr (pre @ NUL # rest) 0 = pre"
  by (simp add: cstr_def takeWhile_append)

lemma cstr_after:
  "NUL \<notin> set post \<Longrightarrow> cstr (pre @ post) (length pre) = post"
  by (auto simp: cstr_def takeWhile_eq_all_conv)

lemma strtok_first_piece:
  assumes "pre \<noteq> []" and "CHR ''$'' \<notin> set pre" and "NUL \<notin> set pre" and "NUL \<notin> set post"
  shows "strtok_at ''$'' (pre @ ''$$'' @ post) 0
           = (Some 0, pre @ NUL # CHR ''$'' # post, Suc (length pre))"
proof -
  define buf where "buf = pre @ ''$$'' @ post"
  have nn: "NUL \<notin> set buf" using assms(3,4) by (simp add: NUL_def buf_def)
  have c: "cstr buf 0 = buf" using nn by (rule cstr_clean)
  have ne: "buf \<noteq> []" by (simp add: buf_def)
  have skip: "takeWhile (\<lambda>c. c = CHR ''$'') buf = []"
    using assms(1,2) by (cases pre) (auto simp: buf_def)
  have tok: "takeWhile (\<lambda>c. c \<noteq> CHR ''$'') buf = pre"
    using assms(2) by (auto simp: buf_def takeWhile_append takeWhile_eq_all_conv)
  have upd: "buf[length pre := NUL] = pre @ NUL # CHR ''$'' # post"
    by (simp add: buf_def list_update_append)
  have at: "buf ! length pre = CHR ''$''" "length pre < length buf"
    by (simp_all add: buf_def nth_append)
  have "strtok_at ''$'' buf 0 = (Some 0, buf[length pre := NUL], Suc (length pre))"
    using ne at by (simp add: strtok_at_def Let_def c skip tok NUL_def)
  then show ?thesis
    unfolding upd unfolding buf_def .
qed

lemma strtok_second_piece:
  assumes "CHR ''$'' \<notin> set post" and "NUL \<notin> set post"
  shows "strtok_at ''$'' (pre @ NUL # CHR ''$'' # post) (Suc (length pre))
           = (if post = [] then None else Some (Suc (Suc (length pre))),
              pre @ NUL # CHR ''$'' # post, Suc (Suc (length pre)) + length post)"
proof -
  define buf where "buf = pre @ NUL # CHR ''$'' # post"
  have "buf = (pre @ [NUL]) @ (CHR ''$'' # post)" by (simp add: buf_def)
  moreover have "NUL \<notin> set (CHR ''$'' # post)" using assms(2) by (simp add: NUL_def)
  ultimately have c1: "cstr buf (Suc (length pre)) = CHR ''$'' # post"
    using cstr_after[of "CHR ''$'' # post" "pre @ [NUL]"] by simp
  have "buf = (pre @ [NUL, CHR ''$'']) @ post" by (simp add: buf_def)
  then have c2: "cstr buf (Suc (Suc (length pre))) = post"
    using cstr_after[OF assms(2), of "pre @ [NUL, CHR ''$'']"] by simp
  have skip: "takeWhile (\<lambda>c. c = CHR ''$'') post = []"
    using assms(1) by (cases post) auto
  have tok: "takeWhile (\<lambda>c. c \<noteq> CHR ''$'') post = post"
    using assms(1) by (auto simp: takeWhile_eq_all_conv)
  have len: "length buf = Suc (Suc (length pre)) + length post" by (simp add: buf_def)
  have "strtok_at ''$'' buf (Suc (length pre))
           = (if post = [] then None else Some (Suc (Suc (length pre))),
              buf, Suc (Suc (length pre)) + length post)"
    by (simp add: strtok_at_def Let_def c1 c2 skip tok len)
  then show ?thesis unfolding buf_def .
qed

lemma expand_single_marker:
  assumes "pre \<noteq> []" and "CHR ''$'' \<notin> set pre" and "NUL \<notin> set pre"
    and "CHR ''$'' \<notin> set post" and "NUL \<notin> set post"
    and "length pre + length pid + length post < 2048"
  shows "expand_marker pid (pre @ ''$$'' @ post) []
           = Inr (pre @ NUL # CHR ''$'' # post, pre @ pid @ post)"
proof -
  have c0: "cstr (pre @ NUL # CHR ''$'' # post) 0 = pre"
    using assms(3) by (rule cstr_cut)
  have "pre @ NUL # CHR ''$'' # post = (pre @ [NUL, CHR ''$'']) @ post" by simp
  then have c2: "cstr (pre @ NUL # CHR ''$'' # post) (Suc (Suc (length pre))) = post"
    using cstr_after[OF assms(5), of "pre @ [NUL, CHR ''$'']"] by simp
  show ?thesis
    unfolding expand_marker_def strtok_first_piece[OF assms(1,2,3,5)]
    using assms(6) c0 c2
    by (simp add: strtok_second_piece[OF assms(4,5)] strcat_cap_def)
qed

lemma dollarsToPID_single_marker:
  assumes "pre \<noteq> []" and "CHR ''$'' \<notin> set pre" and "NUL \<notin> set pre"
    and "CHR ''$'' \<notin> set post" and "NUL \<notin> set post"
    and "length pre + length (sprintf_d pid) + length post < 2048"
  shows "dollarsToPID pid (pre @ ''$$'' @ post) = Inr (pre @ sprintf_d pid @ post)"
proof -
  define buf where "buf = pre @ ''$$'' @ post"
  define buf1 where "buf1 = pre @ NUL # CHR ''$'' # post"
  have nn: "NUL \<notin> set buf" using assms(3,5) by (simp add: NUL_def buf_def)
  have skip: "dollars_loop (sprintf_d pid) 0 buf [] False
                = dollars_loop (sprintf_d pid) (length pre) buf [] False"
    by (rule dollars_loop_skip_prefix[OF nn _ assms(2), of _ "''$$'' @ post"])
       (simp_all add: buf_def)
  have lt: "length pre < strlen buf" using nn by (simp add: strlen_clean) (simp add: buf_def)
  have m: "marker_at buf (length pre)"
    using nn by (simp add: marker_at_def strlen_clean) (simp add: buf_def nth_append)
  have ex: "expand_marker (sprintf_d pid) buf [] = Inr (buf1, pre @ sprintf_d pid @ post)"
    unfolding buf_def buf1_def by (rule expand_single_marker[OF assms])
  have "strlen buf1 = length pre"
    using assms(3) by (simp add: strlen_def buf1_def cstr_cut)
  then have stop: "dollars_loop (sprintf_d pid) (Suc (length pre)) buf1 (pre @ sprintf_d pid @ post) True
                = Inr (buf1, pre @ sprintf_d pid @ post, True)"
    by (subst dollars_loop.simps) simp
  have "dollars_loop (sprintf_d pid) (length pre) buf [] False
                = Inr (buf1, pre @ sprintf_d pid @ post, True)"
    using lt m ex stop by (subst dollars_loop.simps) simp
  with skip have "dollars_loop (sprintf_d pid) 0 buf [] False
                = Inr (buf1, pre @ sprintf_d pid @ post, True)"
    by (simp only:)
  then show ?thesis
    unfolding dollarsToPID_def buf_def[symmetric] by simp
qed

lemma dollarsToPID_leading_marker: "dollarsToPID 1234 ''$$'' = Inl NullDeref"
  by code_simp

text \<open>
  In \<open>main\<close> the expanded string is not used as \<open>dollarsToPID\<close> left it: the array that holds
  it is gone when the function has returned.
\<close>

lemma expanded_line_is_dead:
  "returns_correctedString 1234 ''echo $$'' \<and> parse_line 1234 (''echo $$'' @ [LF]) = Inl DanglingPointer"
  by code_simp

section \<open>Lemmas about the job table\<close>

lemma register_fold:
  "length ps \<le> 200 \<Longrightarrow>
   backgroundPIDs (fold register_background ps initial_shell) = ps @ replicate (200 - length ps) (- 5)
   \<and> nextOpenPosition (fold register_background ps initial_shell) = length ps mod 200
   \<and> trace (fold register_background ps initial_shell) =
       trace initial_shell @ map (\<lambda>p. Printf (BackgroundPidIs p)) ps"
proof (induction ps rule: rev_induct)
  case Nil
  then show ?case by (simp add: initial_shell_def)
next
  case (snoc x xs)
  define s where "s = fold register_background xs initial_shell"
  from snoc have len: "length xs < 200" by simp
  with snoc have IH:
    "backgroundPIDs s = xs @ replicate (200 - length xs) (- 5)"
    "nextOpenPosition s = length xs"
    "trace s = trace initial_shell @ map (\<lambda>p. Printf (BackgroundPidIs p)) xs"
    by (simp_all add: s_def)
  from len have "200 - length xs = Suc (199 - length xs)" by simp
  then have rep: "replicate (200 - length xs) (- 5 :: int) = (- 5) # replicate (199 - length xs) (- 5)"
    by (simp only: replicate_Suc)
  have eq: "fold register_background (xs @ [x]) initial_shell = register_background x s"
    by (simp add: s_def)
  show ?case
    unfolding eq using len
    by (simp add: register_background_def emit_def IH rep list_update_append)
qed

lemma reported_pids_append [simp]:
  "reported_pids (xs @ ys) = reported_pids xs @ reported_pids ys"
  by (simp add: reported_pids_def map_filter_def)

lemma reported_pids_simps [simp]:
  "reported_pids [] = []"
  "reported_pids (e # es) = (case reported_pid e of None \<Rightarrow> reported_pids es | Some p \<Rightarrow> p # reported_pids es)"
  by (simp_all add: reported_pids_def split: option.splits)

lemma registrations_report_nothing:
  "reported_pids (map (\<lambda>p. Printf (BackgroundPidIs p)) ps) = []"
  by (induction ps) simp_all

lemma reap_slot_absent:
  assumes "p \<notin> set (backgroundPIDs s)" and "p \<noteq> - 5" and "i < length (backgroundPIDs s)"
    and "p \<notin> set (reported_pids (trace s))"
  shows "p \<notin> set (backgroundPIDs (reap_slot w i s))
      \<and> length (backgroundPIDs (reap_slot w i s)) = length (backgroundPIDs s)
      \<and> p \<notin> set (reported_pids (trace (reap_slot w i s)))"
proof -
  have upd: "\<And>xs. p \<notin> set xs \<Longrightarrow> p \<notin> set (xs[i := - 5])"
    using assms(2) by (metis insert_iff set_update_subset_insert subsetD)
  have nth: "backgroundPIDs s ! i \<noteq> p"
    using assms(1,3) by (metis nth_mem)
  show ?thesis
    using assms upd nth
    by (auto simp: reap_slot_def emit_def Let_def split: prod.splits)
qed

lemma reap_slots_absent:
  assumes "p \<notin> set (backgroundPIDs s)" and "p \<noteq> - 5"
    and "\<forall>i\<in>set idxs. i < length (backgroundPIDs s)"
    and "p \<notin> set (reported_pids (trace s))"
  shows "p \<notin> set (backgroundPIDs (fold (reap_slot w) idxs s))
      \<and> length (backgroundPIDs (fold (reap_slot w) idxs s)) = length (backgroundPIDs s)
      \<and> p \<notin> set (reported_pids (trace (fold (reap_slot w) idxs s)))"
  using assms
proof (induction idxs arbitrary: s)
  case Nil
  then show ?case by simp
next
  case (Cons i idxs)
  from Cons.prems have step:
    "p \<notin> set (backgroundPIDs (reap_slot w i s))"
    "length (backgroundPIDs (reap_slot w i s)) = length (backgroundPIDs s)"
    "p \<notin> set (reported_pids (trace (reap_slot w i s)))"
    using reap_slot_absent[of p s i w] by simp_all
  with Cons.prems have "\<forall>j\<in>set idxs. j < length (backgroundPIDs (reap_slot w i s))" by simp
  from Cons.IH[OF step(1) Cons.prems(2) this step(3)] step(2) show ?case by simp
qed

lemma reap_passes_absent:
  assumes "p \<notin> set (backgroundPIDs s)" and "p \<noteq> - 5"
    and "length (backgroundPIDs s) = 200"
    and "p \<notin> set (reported_pids (trace s))"
  shows "p \<notin> set (backgroundPIDs (fold reap_pass waits s))
      \<and> length (backgroundPIDs (fold reap_pass waits s)) = 200
      \<and> p \<notin> set (reported_pids (trace (fold reap_pass waits s)))"
  using assms
proof (induction waits arbitrary: s)
  case Nil
  then show ?case by simp
next
  case (Cons w waits)
  have "\<forall>i\<in>set [0..<200]. i < length (backgroundPIDs s)" using Cons.prems(3) by simp
  from reap_slots_absent[OF Cons.prems(1,2) this Cons.prems(4), of w] Cons.prems(3)
  have "p \<notin> set (backgroundPIDs (reap_pass w s))"
    "length (backgroundPIDs (reap_pass w s)) = 200"
    "p \<notin> set (reported_pids (trace (reap_pass w s)))"
    by (simp_all add: reap_pass_def)
  from Cons.IH[OF this(1) Cons.prems(2) this(2,3)] show ?case by simp
qed

lemma register_step:
  "length (backgroundPIDs s) = 200 \<and> nextOpenPosition s < 200 \<Longrightarrow>
     length (backgroundPIDs (register_background p s)) = 200
   \<and> nextOpenPosition (register_background p s) = (nextOpenPosition s + 1) mod 200
   \<and> backgroundPIDs (register_background p s) ! nextOpenPosition s = p"
  by (auto simp: register_background_def emit_def)


lemma register_position:
  "length (backgroundPIDs (fold register_background ps initial_shell)) = 200
   \<and> nextOpenPosition (fold register_background ps initial_shell) = length ps mod 200"
proof (induction ps rule: rev_induct)
  case Nil
  then show ?case by (simp add: initial_shell_def)
next
  case (snoc x xs)
  define s where "s = fold register_background xs initial_shell"
  from snoc have IH: "length (backgroundPIDs s) = 200" "nextOpenPosition s = length xs mod 200"
    by (simp_all add: s_def)
  then have "length (backgroundPIDs s) = 200 \<and> nextOpenPosition s < 200" by simp
  from register_step[OF this, of x] IH(2)
  have "length (backgroundPIDs (register_background x s)) = 200"
    "nextOpenPosition (register_background x s) = Suc (length xs) mod 200"
    by (simp_all add: mod_Suc_eq)
  moreover have "fold register_background (xs @ [x]) initial_shell = register_background x s"
    by (simp add: s_def)
  ultimately show ?case by simp
qed

lemma spawns_issued_simps [simp]:
  "spawns_issued [] = 0"
  "spawns_issued (e # es) = (if is_registration e then 1 else 0) + spawns_issued es"
  "spawns_issued (xs @ ys) = spawns_issued xs + spawns_issued ys"
  by (simp_all add: spawns_issued_def)

lemma completions_reaped_simps [simp]:
  "completions_reaped [] = 0"
  "completions_reaped (e # es) = (case reported_pid e of None \<Rightarrow> 0 | Some _ \<Rightarrow> 1) + completions_reaped es"
  "completions_reaped (xs @ ys) = completions_reaped xs + completions_reaped ys"
  by (simp_all add: completions_reaped_def split: option.splits)

lemma spawns_issued_replicate_Prompt [simp]:
  "spawns_issued (replicate n (Printf Prompt)) = 0"
  by (induction n) simp_all

lemma completions_reaped_replicate_Prompt [simp]:
  "completions_reaped (replicate n (Printf Prompt)) = 0"
  by (induction n) simp_all

lemma filter_length_update:
  "k < length xs \<Longrightarrow>
   length (filter P (xs[k := v])) + (if P (xs ! k) then 1 else 0)
     = length (filter P xs) + (if P v then 1 else 0)"
proof (induction xs arbitrary: k)
  case Nil
  then show ?case by simp
next
  case (Cons x xs)
  then show ?case by (cases k) auto
qed

lemma WIF_exclusive: "WIFEXITED status \<Longrightarrow> \<not> WIFSIGNALED status"
  by (simp add: WIFEXITED_def WIFSIGNALED_def)

lemma jobs_inv_initial: "jobs_inv initial_shell"
  by (simp add: jobs_inv_def initial_shell_def)

lemma same_jobs_refl [simp]: "same_jobs s s"
  by (simp add: same_jobs_def)

lemma same_jobs_trans: "same_jobs s s' \<Longrightarrow> same_jobs s' s'' \<Longrightarrow> same_jobs s s''"
  by (simp add: same_jobs_def)

lemma same_jobs_inv: "same_jobs s s' \<Longrightarrow> jobs_inv s \<Longrightarrow> jobs_inv s'"
  by (simp add: same_jobs_def jobs_inv_def)

lemma same_jobs_reaped: "same_jobs s s' \<Longrightarrow> reaped_from s s'"
  by (simp add: same_jobs_def reaped_from_def occupied_slots_def)

lemma reaped_from_refl [simp]: "reaped_from s s"
  by (simp add: reaped_from_def)

lemma reaped_from_trans: "reaped_from s s' \<Longrightarrow> reaped_from s' s'' \<Longrightarrow> reaped_from s s''"
  by (simp add: reaped_from_def)

lemma reaped_from_inv: "reaped_from s s' \<Longrightarrow> jobs_inv s \<Longrightarrow> jobs_inv s'"
  by (simp add: reaped_from_def jobs_inv_def)

lemma catchSIGTSTP_same_jobs: "same_jobs s (catchSIGTSTP waited s)"
  by (simp add: same_jobs_def catchSIGTSTP_def emit_def Let_def)

lemma reap_slot_cases:
  "same_jobs s (reap_slot w i s) \<or>
   (backgroundPIDs s ! i \<noteq> - 5
    \<and> backgroundPIDs (reap_slot w i s) = (backgroundPIDs s)[i := - 5]
    \<and> nextOpenPosition (reap_slot w i s) = nextOpenPosition s
    \<and> spawns_issued (trace (reap_slot w i s)) = spawns_issued (trace s)
    \<and> completions_reaped (trace (reap_slot w i s)) = Suc (completions_reaped (trace s)))"
  by (auto simp: reap_slot_def same_jobs_def emit_def Let_def WIF_exclusive split: prod.splits)

lemma reap_slot_reaped:
  assumes "i < length (backgroundPIDs s)"
  shows "reaped_from s (reap_slot w i s)"
proof -
  from reap_slot_cases[of s w i] show ?thesis
  proof
    assume "same_jobs s (reap_slot w i s)"
    then show ?thesis by (rule same_jobs_reaped)
  next
    assume c: "backgroundPIDs s ! i \<noteq> - 5
      \<and> backgroundPIDs (reap_slot w i s) = (backgroundPIDs s)[i := - 5]
      \<and> nextOpenPosition (reap_slot w i s) = nextOpenPosition s
      \<and> spawns_issued (trace (reap_slot w i s)) = spawns_issued (trace s)
      \<and> completions_reaped (trace (reap_slot w i s)) = Suc (completions_reaped (trace s))"
    from filter_length_update[OF assms, of "\<lambda>p. p \<noteq> - 5" "- 5"] c
    have occ: "Suc (occupied_slots (reap_slot w i s)) = occupied_slots s"
      by (simp add: occupied_slots_def)
    show ?thesis
      using c occ assms by (auto simp: reaped_from_def nth_list_update)
  qed
qed

lemma reap_slots_reaped:
  "\<forall>i\<in>set idxs. i < length (backgroundPIDs s) \<Longrightarrow> reaped_from s (fold (reap_slot w) idxs s)"
proof (induction idxs arbitrary: s)
  case Nil
  then show ?case by simp
next
  case (Cons i idxs)
  then have r: "reaped_from s (reap_slot w i s)" by (simp add: reap_slot_reaped)
  then have "length (backgroundPIDs (reap_slot w i s)) = length (backgroundPIDs s)"
    by (simp add: reaped_from_def)
  with Cons.prems have "\<forall>j\<in>set idxs. j < length (backgroundPIDs (reap_slot w i s))" by simp
  from reaped_from_trans[OF r Cons.IH[OF this]] show ?case by simp
qed

lemma reap_pass_reaped: "length (backgroundPIDs s) = 200 \<Longrightarrow> reaped_from s (reap_pass w s)"
  by (simp add: reap_pass_def reap_slots_reaped)

lemma emit_same_jobs:
  "spawns_issued evs = 0 \<Longrightarrow> completions_reaped evs = 0 \<Longrightarrow> same_jobs s (emit evs s)"
  by (simp add: same_jobs_def emit_def)

lemma shutdown_same_jobs: "same_jobs s (state_of (shutdown s))"
proof -
  have "\<And>idxs. spawns_issued (concat (map (\<lambda>reaperIndex.
                     if backgroundPIDs s ! reaperIndex \<noteq> - 5
                     then [Kill (backgroundPIDs s ! reaperIndex) SIGKILL] else []) idxs)) = 0
        \<and> completions_reaped (concat (map (\<lambda>reaperIndex.
                     if backgroundPIDs s ! reaperIndex \<noteq> - 5
                     then [Kill (backgroundPIDs s ! reaperIndex) SIGKILL] else []) idxs)) = 0"
    subgoal for idxs by (induction idxs) simp_all
    done
  then show ?thesis by (simp add: shutdown_def emit_same_jobs)
qed

lemma chdir_token_same_jobs: "same_jobs s (state_of (chdir_token s path))"
  by (simp add: chdir_token_def emit_same_jobs split: prod.splits)

lemma change_directory_same_jobs: "same_jobs s (state_of (change_directory s t arg))"
  by (simp add: change_directory_def chdir_token_same_jobs split: sum.splits option.splits)

lemma status_command_same_jobs: "same_jobs s (state_of (status_command s))"
  by (simp add: status_command_def emit_same_jobs split: option.splits)

lemma foreground_branch_same_jobs: "same_jobs s (state_of (foreground_branch s t a))"
  by (simp add: foreground_branch_def same_jobs_def emit_def Let_def)

lemma same_jobs_step: "same_jobs s (state_of out) \<Longrightarrow> job_step s out"
  by (simp add: job_step_def)

lemma background_branch_jobs:
  assumes "- 1 \<le> fork_ret t"
  shows "job_step s (background_branch s t a)"
proof -
  consider "fork_ret t = - 1" | "fork_ret t = 0" | "fork_ret t \<noteq> - 1" "fork_ret t \<noteq> 0"
    by blast
  then show ?thesis
  proof cases
    case 1
    then show ?thesis
      by (simp add: background_branch_def Let_def job_step_def same_jobs_def emit_def)
  next
    case 2
    then show ?thesis
      by (simp add: background_branch_def Let_def job_step_def same_jobs_def emit_def)
  next
    case 3
    then have "fork_ret t \<noteq> - 5" using assms by simp
    with 3 show ?thesis
      by (auto simp: background_branch_def Let_def job_step_def register_background_def emit_def)
  qed
qed

lemma spawn_command_jobs:
  "- 1 \<le> fork_ret t \<Longrightarrow> job_step s (spawn_command s t a)"
  using same_jobs_step[OF foreground_branch_same_jobs]
  by (simp add: spawn_command_def background_branch_jobs same_jobs_step
      split: option.splits sum.splits prod.splits)

lemma dispatch_jobs:
  "- 1 \<le> fork_ret t \<Longrightarrow> job_step s (dispatch s t a)"
  using same_jobs_step[OF shutdown_same_jobs] same_jobs_step[OF change_directory_same_jobs]
    same_jobs_step[OF status_command_same_jobs]
  by (simp add: dispatch_def spawn_command_jobs same_jobs_step emit_same_jobs split: option.splits)

text \<open>
  One iteration: the invariant is kept, and the occupied slots, the completions reported
  and the overwriting (if the iteration overwrites) account for the spawns. No iteration
  overwrites while at most 200 spawns have been issued.
\<close>

lemma step_accounting:
  assumes inv: "jobs_inv s" and f: "- 1 \<le> fork_ret t"
  defines "s' \<equiv> state_of (step s t)"
  shows "jobs_inv s'
       \<and> occupied_slots s' + completions_reaped (trace s') + (if overwrites s t then 1 else 0)
           + spawns_issued (trace s)
         = occupied_slots s + completions_reaped (trace s) + spawns_issued (trace s')
       \<and> spawns_issued (trace s) \<le> spawns_issued (trace s')
       \<and> (spawns_issued (trace s') \<le> 200 \<longrightarrow> \<not> overwrites s t)"
proof -
  define s1 where "s1 = reap_pass (reap_waitpid t) s"
  define s2 where "s2 = emit (replicate (Suc (failed_reads t)) (Printf Prompt)) s1"
  have len: "length (backgroundPIDs s) = 200" using inv by (simp add: jobs_inv_def)
  have r1: "reaped_from s s1" unfolding s1_def using len by (rule reap_pass_reaped)
  have sj: "same_jobs s1 s2"
    unfolding s2_def by (rule emit_same_jobs) (simp_all del: replicate_Suc)
  have r2: "reaped_from s s2" using r1 same_jobs_reaped[OF sj] by (rule reaped_from_trans)
  have inv2: "jobs_inv s2" using r2 inv by (rule reaped_from_inv)
  have tb: "backgroundPIDs s2 = backgroundPIDs s1" using sj by (simp add: same_jobs_def)
  have js: "job_step s2 (step s t)"
  proof (cases "parse_line (getpid_ret t) (getline_ret t)")
    case (Inl e)
    then show ?thesis
      unfolding step_def Let_def s1_def[symmetric] s2_def[symmetric]
      by (simp add: job_step_def)
  next
    case (Inr parsed)
    then show ?thesis
      unfolding step_def Let_def s1_def[symmetric] s2_def[symmetric]
      using dispatch_jobs[OF f, of s2] by (cases parsed) (simp_all add: job_step_def)
  qed
  have facts2: "length (backgroundPIDs s2) = 200" "nextOpenPosition s2 = nextOpenPosition s"
    "spawns_issued (trace s2) = spawns_issued (trace s)"
    "occupied_slots s2 + completions_reaped (trace s2)
       = occupied_slots s + completions_reaped (trace s)"
    using r2 len by (simp_all add: reaped_from_def)
  from js show ?thesis
    unfolding job_step_def
  proof
    assume same: "same_jobs s2 (state_of (step s t))"
    then have same': "same_jobs s2 s'" by (simp add: s'_def)
    have "\<not> overwrites s t"
      using same facts2(3) by (auto simp: overwrites_def same_jobs_def split: outcome.splits)
    moreover have "jobs_inv s'" using same' inv2 by (rule same_jobs_inv)
    moreover have "occupied_slots s' = occupied_slots s2"
      using same' by (simp add: same_jobs_def occupied_slots_def)
    ultimately show ?thesis
      using same' facts2 by (simp add: same_jobs_def)
  next
    assume "\<exists>p. p \<noteq> - 5 \<and> step s t = Continue (state_of (step s t))
          \<and> backgroundPIDs (state_of (step s t)) = (backgroundPIDs s2)[nextOpenPosition s2 := p]
          \<and> nextOpenPosition (state_of (step s t))
              = (if nextOpenPosition s2 = 199 then 0 else nextOpenPosition s2 + 1)
          \<and> spawns_issued (trace (state_of (step s t))) = Suc (spawns_issued (trace s2))
          \<and> completions_reaped (trace (state_of (step s t))) = completions_reaped (trace s2)"
    then obtain p where p: "p \<noteq> - 5" and st: "step s t = Continue s'"
      and tb': "backgroundPIDs s' = (backgroundPIDs s2)[nextOpenPosition s2 := p]"
      and nx': "nextOpenPosition s' = (if nextOpenPosition s2 = 199 then 0 else nextOpenPosition s2 + 1)"
      and sp': "spawns_issued (trace s') = Suc (spawns_issued (trace s2))"
      and rp': "completions_reaped (trace s') = completions_reaped (trace s2)"
      unfolding s'_def by blast
    let ?n = "spawns_issued (trace s2)"
    from inv2 have nxt: "nextOpenPosition s2 = ?n mod 200"
      and free: "\<forall>i<200. ?n \<le> i \<longrightarrow> backgroundPIDs s2 ! i = - 5"
      by (simp_all add: jobs_inv_def)
    have k: "nextOpenPosition s2 < length (backgroundPIDs s2)" using facts2(1) nxt by simp
    have ov: "overwrites s t \<longleftrightarrow> backgroundPIDs s2 ! nextOpenPosition s2 \<noteq> - 5"
      using st sp' facts2(2,3) tb by (simp add: overwrites_def s1_def)
    from filter_length_update[OF k, of "\<lambda>p. p \<noteq> - 5" p] p
    have occ: "occupied_slots s' + (if overwrites s t then 1 else 0) = occupied_slots s2 + 1"
      by (simp add: occupied_slots_def tb' ov)
    have c1: "length (backgroundPIDs s') = 200" using tb' facts2(1) by simp
    have c2: "nextOpenPosition s' = Suc ?n mod 200"
      using nx' nxt by (simp add: mod_Suc)
    have c3: "\<forall>i<200. Suc ?n \<le> i \<longrightarrow> backgroundPIDs s' ! i = - 5"
    proof (intro allI impI)
      fix i assume i: "i < 200" "Suc ?n \<le> i"
      then have "?n < 200" by simp
      then have "nextOpenPosition s2 = ?n" using nxt by simp
      with i free show "backgroundPIDs s' ! i = - 5" by (simp add: tb')
    qed
    have c4: "spawns_issued (trace s') \<le> 200 \<longrightarrow> \<not> overwrites s t"
    proof
      assume "spawns_issued (trace s') \<le> 200"
      then have lt: "?n < 200" using sp' by simp
      then have "nextOpenPosition s2 = ?n" using nxt by simp
      with free lt show "\<not> overwrites s t" by (simp add: ov)
    qed
    have "jobs_inv s'" unfolding jobs_inv_def using c1 c2 c3 sp' by simp
    then show ?thesis
      using occ sp' rp' facts2 c4 by simp
  qed
qed

lemma run_accounting:
  "jobs_inv s \<Longrightarrow> \<forall>t. Line t \<in> set stimuli \<longrightarrow> - 1 \<le> fork_ret t \<Longrightarrow>
   jobs_inv (state_of (run s stimuli))
   \<and> occupied_slots (state_of (run s stimuli)) + completions_reaped (trace (state_of (run s stimuli)))
       + overwritten s stimuli + spawns_issued (trace s)
     = occupied_slots s + completions_reaped (trace s) + spawns_issued (trace (state_of (run s stimuli)))
   \<and> spawns_issued (trace s) \<le> spawns_issued (trace (state_of (run s stimuli)))
   \<and> (spawns_issued (trace (state_of (run s stimuli))) \<le> 200 \<longrightarrow> overwritten s stimuli = 0)"
proof (induction s stimuli rule: run.induct)
  case (1 s)
  then show ?case by simp
next
  case (2 s waited rest)
  have sj: "same_jobs s (catchSIGTSTP waited s)" by (rule catchSIGTSTP_same_jobs)
  then have "jobs_inv (catchSIGTSTP waited s)" using 2(2) by (rule same_jobs_inv)
  from 2(1)[OF this] 2(3) sj show ?case
    by (simp add: same_jobs_def occupied_slots_def)
next
  case (3 s t rest)
  from 3(3) have f: "- 1 \<le> fork_ret t" by simp
  note acc = step_accounting[OF 3(2) f]
  show ?case
  proof (cases "step s t")
    case (Continue s1)
    with acc have inv1: "jobs_inv s1" by simp
    from 3(3) have "\<forall>t. Line t \<in> set rest \<longrightarrow> - 1 \<le> fork_ret t" by simp
    from 3(1)[OF Continue inv1 this] acc Continue show ?thesis
      by (simp split: if_splits)
  next
    case (Exit c s1)
    with acc show ?thesis by (simp add: overwrites_def)
  next
    case (Fault e s1)
    with acc show ?thesis by (simp add: overwrites_def)
  next
    case (InChild b a s1)
    with acc show ?thesis by (simp add: overwrites_def)
  qed
qed

lemma typed_fields [simp]:
  "reap_waitpid (typed text child) = (\<lambda>reaperIndex pid. (0, None))"
  "failed_reads (typed text child) = 0"
  "getpid_ret (typed text child) = 1234"
  "fork_ret (typed text child) = child"
  "fg_waitpid (typed text child) = Some 0"
  by (simp_all add: typed_def)

lemma parse_sleep:
  "parse_line 1234 (getline_ret (typed ''sleep 100 &'' child)) = Inr (Some (argv_of [''sleep'', ''100'', ''&'']))"
proof -
  have "parse_line 1234 (''sleep 100 &'' @ [LF]) = Inr (Some (argv_of [''sleep'', ''100'', ''&'']))"
    by code_simp
  then show ?thesis by (simp add: typed_def)
qed

lemma argv_sleep:
  "find_last (argv_of [''sleep'', ''100'', ''&'']) = Some 2"
  "str_at (argv_of [''sleep'', ''100'', ''&'']) 2 = Inr ''&''"
  "argv_of [''sleep'', ''100'', ''&''] ! 0 = Some ''sleep''"
  by code_simp+

lemma reap_slot_flag [simp]: "turnOffBackground (reap_slot w i s) = turnOffBackground s"
  by (simp add: reap_slot_def emit_def Let_def split: prod.splits)

lemma reap_slots_flag [simp]: "turnOffBackground (fold (reap_slot w) idxs s) = turnOffBackground s"
  by (induction idxs arbitrary: s) simp_all

lemma reap_pass_flag [simp]: "turnOffBackground (reap_pass w s) = turnOffBackground s"
  by (simp add: reap_pass_def)

lemma reap_slot_idle: "same_jobs s (reap_slot (\<lambda>i p. (0, None)) i s)"
  by (simp add: reap_slot_def same_jobs_def emit_def Let_def)

lemma reap_slots_idle: "same_jobs s (fold (reap_slot (\<lambda>i p. (0, None))) idxs s)"
proof (induction idxs arbitrary: s)
  case Nil
  then show ?case by simp
next
  case (Cons i idxs)
  from same_jobs_trans[OF reap_slot_idle Cons] show ?case by simp
qed

lemma reap_pass_idle: "same_jobs s (reap_pass (\<lambda>i p. (0, None)) s)"
  by (simp add: reap_pass_def reap_slots_idle)

lemma typed_sleep_step:
  assumes "\<not> turnOffBackground s" and "p \<noteq> - 1" and "p \<noteq> 0"
  shows "step s (typed ''sleep 100 &'' p) =
           Continue (register_background p (emit [Fork p] (emit [Printf Prompt]
             (reap_pass (\<lambda>i q. (0, None)) s))))"
  using assms
  by (simp add: step_def parse_sleep argv_sleep dispatch_def spawn_command_def strip_ampersand_def
      background_branch_def emit_def Let_def)


lemma run_append:
  "run s (xs @ ys) = (case run s xs of Continue s' \<Rightarrow> run s' ys | other \<Rightarrow> other)"
proof (induction s xs rule: run.induct)
  case (1 s)
  then show ?case by simp
next
  case (2 s waited rest)
  then show ?case by simp
next
  case (3 s t rest)
  then show ?case by (cases "step s t") simp_all
qed

lemma register_overflow:
  assumes "length pids = 201"
  shows "backgroundPIDs (fold register_background pids initial_shell) = (take 200 pids)[0 := pids ! 200]
       \<and> nextOpenPosition (fold register_background pids initial_shell) = 1
       \<and> trace (fold register_background pids initial_shell) =
           trace (fold register_background (take 200 pids) initial_shell) @ [Printf (BackgroundPidIs (pids ! 200))]"
proof -
  define s200 where "s200 = fold register_background (take 200 pids) initial_shell"
  have l200: "length (take 200 pids) = 200" using assms by simp
  have t200: "backgroundPIDs s200 = take 200 pids" "nextOpenPosition s200 = 0"
    using register_fold[of "take 200 pids"] l200 by (simp_all add: s200_def)
  have "drop 200 pids = [pids ! 200]"
    using assms Cons_nth_drop_Suc[of 200 pids] by simp
  then have "take 200 pids @ [pids ! 200] = pids"
    by (metis append_take_drop_id)
  then have "fold register_background pids initial_shell =
        fold register_background (take 200 pids @ [pids ! 200]) initial_shell"
    by simp
  then have "fold register_background pids initial_shell = register_background (pids ! 200) s200"
    by (simp add: s200_def)
  then show ?thesis
    by (simp add: register_background_def emit_def t200 s200_def[symmetric])
qed

lemma sleepers_run:
  "\<forall>p\<in>set ps. p \<noteq> - 1 \<and> p \<noteq> 0 \<Longrightarrow>
   \<exists>s. run initial_shell (map (\<lambda>p. Line (typed ''sleep 100 &'' p)) ps) = Continue s
      \<and> \<not> turnOffBackground s
      \<and> backgroundPIDs s = backgroundPIDs (fold register_background ps initial_shell)
      \<and> nextOpenPosition s = nextOpenPosition (fold register_background ps initial_shell)
      \<and> spawns_issued (trace s) = length ps
      \<and> completions_reaped (trace s) = 0"
proof (induction ps rule: rev_induct)
  case Nil
  then show ?case by (simp add: initial_shell_def)
next
  case (snoc p ps)
  then obtain s where s: "run initial_shell (map (\<lambda>p. Line (typed ''sleep 100 &'' p)) ps) = Continue s"
      "\<not> turnOffBackground s"
      "backgroundPIDs s = backgroundPIDs (fold register_background ps initial_shell)"
      "nextOpenPosition s = nextOpenPosition (fold register_background ps initial_shell)"
      "spawns_issued (trace s) = length ps" "completions_reaped (trace s) = 0"
    by auto
  define x where "x = emit [Fork p] (emit [Printf Prompt] (reap_pass (\<lambda>i q. (0, None)) s))"
  from snoc.prems have p: "p \<noteq> - 1" "p \<noteq> 0" by simp_all
  have st: "step s (typed ''sleep 100 &'' p) = Continue (register_background p x)"
    unfolding x_def using typed_sleep_step[OF s(2) p] .
  have "same_jobs s (reap_pass (\<lambda>i q. (0, None)) s)"
    by (rule reap_pass_idle)
  moreover have "same_jobs (reap_pass (\<lambda>i q. (0, None)) s) (emit [Printf Prompt] (reap_pass (\<lambda>i q. (0, None)) s))"
    by (rule emit_same_jobs) simp_all
  moreover have "same_jobs (emit [Printf Prompt] (reap_pass (\<lambda>i q. (0, None)) s)) x"
    unfolding x_def by (rule emit_same_jobs) simp_all
  ultimately have "same_jobs s x"
    by (blast intro: same_jobs_trans)
  then have x: "backgroundPIDs x = backgroundPIDs s" "nextOpenPosition x = nextOpenPosition s"
    "spawns_issued (trace x) = length ps" "completions_reaped (trace x) = 0"
    using s(5,6) by (simp_all add: same_jobs_def)
  have flag: "turnOffBackground x = turnOffBackground s"
    by (simp add: x_def emit_def)
  have "run initial_shell (map (\<lambda>p. Line (typed ''sleep 100 &'' p)) (ps @ [p])) = Continue (register_background p x)"
    by (simp add: run_append s(1) st)
  moreover have "\<not> turnOffBackground (register_background p x)"
    using flag s(2) by (simp add: register_background_def emit_def)
  moreover have "backgroundPIDs (register_background p x)
                  = backgroundPIDs (fold register_background (ps @ [p]) initial_shell)"
    "nextOpenPosition (register_background p x)
                  = nextOpenPosition (fold register_background (ps @ [p]) initial_shell)"
    using x s(3,4) by (simp_all add: register_background_def emit_def)
  moreover have "spawns_issued (trace (register_background p x)) = length (ps @ [p])"
    "completions_reaped (trace (register_background p x)) = 0"
    using x by (simp_all add: register_background_def emit_def)
  ultimately show ?case by blast
qed

lemma sleepers_overflow:
  assumes "n = 201"
  shows "let s = state_of (run initial_shell
                       (map (\<lambda>k. Line (typed ''sleep 100 &'' (2000 + int k))) [0..<n]))
   in occupied_slots s = 200 \<and> spawns_issued (trace s) = 201 \<and> completions_reaped (trace s) = 0"
proof -
  define ps where "ps = map (\<lambda>k. 2000 + int k) [0..<n]"
  have len: "length ps = 201" by (simp add: ps_def assms)
  have pos: "\<forall>p\<in>set ps. 0 < p" by (auto simp: ps_def)
  then have "\<forall>p\<in>set ps. p \<noteq> - 1 \<and> p \<noteq> 0" by fastforce
  from sleepers_run[OF this] obtain s where
    s: "run initial_shell (map (\<lambda>p. Line (typed ''sleep 100 &'' p)) ps) = Continue s"
      "backgroundPIDs s = backgroundPIDs (fold register_background ps initial_shell)"
      "spawns_issued (trace s) = length ps" "completions_reaped (trace s) = 0"
    by blast
  have m: "map (\<lambda>p. Line (typed ''sleep 100 &'' p)) ps
            = map (\<lambda>k. Line (typed ''sleep 100 &'' (2000 + int k))) [0..<n]"
    by (simp add: ps_def o_def)
  have tb: "backgroundPIDs s = (take 200 ps)[0 := ps ! 200]"
    using register_overflow[OF len] s(2) by simp
  have "set ((take 200 ps)[0 := ps ! 200]) \<subseteq> insert (ps ! 200) (set (take 200 ps))"
    by (rule set_update_subset_insert)
  also have "\<dots> \<subseteq> set ps"
    using len by (auto dest: in_set_takeD)
  finally have "\<forall>p\<in>set (backgroundPIDs s). p \<noteq> - 5"
    using pos tb by fastforce
  then have "filter (\<lambda>p. p \<noteq> - 5) (backgroundPIDs s) = backgroundPIDs s"
    by (simp add: filter_id_conv)
  then have occ: "occupied_slots s = 200"
    using tb len by (simp add: occupied_slots_def)
  show ?thesis
    unfolding m[symmetric] s(1) Let_def using occ s(3,4) len by simp
qed

text \<open>
  The arithmetic of two instances of the accounting.
\<close>

lemma accounting_arith_small:
  fixes occ rp ov sp :: nat
  shows "occ + rp + ov = sp \<Longrightarrow> (sp \<le> 200 \<longrightarrow> ov = 0) \<Longrightarrow> sp = 2 \<Longrightarrow> rp = 1 \<Longrightarrow> occ = 1 \<and> ov = 0"
  by simp

lemma accounting_arith_overflow:
  fixes occ rp ov sp :: nat
  shows "occ + rp + ov = sp \<Longrightarrow> occ = 200 \<and> sp = 201 \<and> rp = 0 \<Longrightarrow> ov = 1"
  by simp

section \<open>Lemmas about the child\<close>

lemma argv_of_length [simp]: "length (argv_of toks) = 512"
  by (simp add: argv_of_def take_map)

lemma argv_of_nth:
  "i < 512 \<Longrightarrow> argv_of toks ! i = (if i < length toks then Some (toks ! i) else None)"
  by (auto simp: argv_of_def nth_append)

lemma find_last_prefix:
  "n \<le> 512 \<Longrightarrow>
   fold (\<lambda>index lastIndex. if argv_of toks ! index \<noteq> None then Some (int index) else lastIndex) [0..<n] None
     = (if n = 0 \<or> toks = [] then None else Some (int (min n (length toks)) - 1))"
proof (induction n)
  case 0
  then show ?case by simp
next
  case (Suc n)
  then have n: "n < 512" by simp
  show ?case
    using Suc n by (auto simp: argv_of_nth min_def)
qed

lemma find_last_argv_of:
  "toks \<noteq> [] \<Longrightarrow> length toks \<le> 512 \<Longrightarrow> find_last (argv_of toks) = Some (int (length toks) - 1)"
  unfolding find_last_def using find_last_prefix[of 512 toks] by simp

lemma argv_of_strip:
  assumes "toks \<noteq> []" and "length toks \<le> 512"
  shows "(argv_of toks)[length toks - 1 := None] = argv_of (butlast toks)"
proof (rule nth_equalityI)
  show "length ((argv_of toks)[length toks - 1 := None]) = length (argv_of (butlast toks))" by simp
next
  fix i assume "i < length ((argv_of toks)[length toks - 1 := None])"
  then have i: "i < 512" by simp
  show "(argv_of toks)[length toks - 1 := None] ! i = argv_of (butlast toks) ! i"
    using i assms by (auto simp: argv_of_nth nth_list_update nth_butlast)
qed



lemma exec_argv_full:
  assumes "length toks = 512"
  shows "exec_argv (argv_of toks) = Inl OutOfBounds"
  using assms by (auto simp: exec_argv_def argv_of_def)



lemma argv_head: "args \<noteq> [] \<Longrightarrow> argv_of args ! 0 = Some (args ! 0)"
  by (cases args) (simp_all add: argv_of_def)



lemma world_after_append [simp]:
  "world_after os w (xs @ ys) = world_after os (world_after os w xs) ys"
  by (induction xs arbitrary: w) auto

lemma open_events_append [simp]: "open_events (xs @ ys) = open_events xs @ open_events ys"
  by (induction xs) auto

lemma keeps_stdout_append [simp]: "keeps_stdout (xs @ ys) \<longleftrightarrow> keeps_stdout xs \<and> keeps_stdout ys"
  by (induction xs) auto












text \<open>
  Examples for the argument vector that the program receives: ordinary arguments after a
  pair in the second-to-last two positions are lost with it; pairs that stand at the end
  are removed and nothing else.
\<close>

lemma trailing_arguments_are_dropped:
  "(case tryToRunCommand example_os
           (fresh_child [''input''] (argv_of [''grep'', ''<'', ''input'', ''foo'', ''bar''])) False
    of Replaced prog args c \<Rightarrow>
         prog = ''grep'' \<and> args = [''grep'']
         \<and> c_events c = [Open ''input'' O_RDONLY True, Dup2 0, Execvp ''grep'' [''grep''] True]
    | _ \<Rightarrow> False)"
  by code_simp

lemma pairs_at_the_end:
  "(case tryToRunCommand example_os
           (fresh_child [''in''] (argv_of [''cat'', ''-n'', ''<'', ''in'', ''>'', ''out''])) False
    of Replaced prog args c \<Rightarrow>
         prog = ''cat'' \<and> args = [''cat'', ''-n'']
         \<and> c_events c = [Open ''out'' O_WRONLY_CREAT_TRUNC True, Dup2 1,
                          Open ''in'' O_RDONLY True, Dup2 0,
                          Execvp ''cat'' [''cat'', ''-n''] True]
    | _ \<Rightarrow> False)"
  by code_simp

lemma clean_append [simp]: "clean (xs @ ys) \<longleftrightarrow> clean xs \<and> clean ys"
  by (simp add: clean_def)

lemma clean_simps [simp]:
  "clean []" "clean (e # es) \<longleftrightarrow> \<not> is_failure e \<and> clean es"
  by (simp_all add: clean_def)

lemma open_input_stage: "clean (c_events c) \<Longrightarrow> stage_ok (open_input os path c)"
  by (auto simp: stage_ok_def open_input_def split: prod.splits bool.splits)

lemma open_output_stage:
  "clean (c_events c) \<Longrightarrow> fl \<noteq> O_RDONLY \<Longrightarrow> stage_ok (open_output os path fl c)"
  by (auto simp: stage_ok_def open_output_def split: prod.splits bool.splits)

lemma and_then_stage:
  "stage_ok r \<Longrightarrow> (\<And>c. clean (c_events c) \<Longrightarrow> stage_ok (f c)) \<Longrightarrow> stage_ok (and_then r f)"
  by (cases r) (simp_all add: stage_ok_def and_then_def)

lemma Inr_stage: "clean (c_events c) \<Longrightarrow> stage_ok (Inr c)"
  by (simp add: stage_ok_def)

lemma Inl_stage: "good_ending e \<Longrightarrow> stage_ok (Inl e)"
  by (simp add: stage_ok_def)

lemma consume_stage:
  "stage_ok r \<Longrightarrow>
   stage_ok (and_then r (\<lambda>c'. Inr (c'\<lparr>c_argv := f c', c_inputRedirected := True\<rparr>)))
   \<and> stage_ok (and_then r (\<lambda>c'. Inr (c'\<lparr>c_argv := f c', c_outputRedirected := True\<rparr>)))"
  by (cases r) (simp_all add: stage_ok_def and_then_def)

lemma redirect_pair_stage:
  assumes cl: "clean (c_events c)"
  shows "stage_ok (redirect_pair os k c)"
proof (cases "str_at (c_argv c) (k - 1)")
  case (Inl f)
  then show ?thesis using cl by (simp add: redirect_pair_def stage_ok_def)
next
  case op: (Inr operator)
  show ?thesis
  proof (cases "str_at (c_argv c) k")
    case (Inl f)
    then show ?thesis using cl op by (simp add: redirect_pair_def stage_ok_def)
  next
    case (Inr path)
    from consume_stage[OF open_input_stage[OF cl, of os path]]
      consume_stage[OF open_output_stage[OF cl, of O_WRONLY_CREAT_TRUNC os path]]
    show ?thesis
      using cl op Inr by (simp add: redirect_pair_def Inr_stage)
  qed
qed

lemma call_execvp_good: "clean (c_events c) \<Longrightarrow> good_ending (call_execvp os c)"
  by (auto simp: call_execvp_def split: option.splits sum.splits)

lemma and_then_ends:
  "(\<And>c. \<exists>e. f c = Inl e) \<Longrightarrow> \<exists>e. and_then r f = Inl e"
  by (cases r) (simp_all add: and_then_def)

lemma redirect_and_exec_good:
  fixes os :: "'w platform"
  assumes "clean (c_events c)"
  shows "good_ending (redirect_and_exec os c lastIndex isBackground)"
proof -
  define chain :: "'w ending + 'w child" where "chain =
     and_then (if lastIndex \<ge> 1 then redirect_pair os lastIndex c else Inr c) (\<lambda>c3.
      and_then (if lastIndex \<ge> 3 then redirect_pair os (lastIndex - 2) c3 else Inr c3) (\<lambda>c4.
      and_then (if isBackground \<and> \<not> c_inputRedirected c4
                then open_input os ''/dev/null'' c4 else Inr c4) (\<lambda>c5.
      and_then (if isBackground \<and> \<not> c_outputRedirected c5
                then open_output os ''/dev/null'' O_WRONLY c5 else Inr c5) (\<lambda>c6.
      Inl (call_execvp os c6)))))"
  have ok: "stage_ok chain"
    unfolding chain_def using assms
    by (intro and_then_stage)
       (simp_all add: redirect_pair_stage Inr_stage Inl_stage open_input_stage open_output_stage
          call_execvp_good)
  have "\<exists>e. chain = Inl e"
    unfolding chain_def by (intro and_then_ends) blast
  then obtain e where e: "chain = Inl e" by blast
  with ok have "good_ending e" by (simp add: stage_ok_def)
  moreover have "redirect_and_exec os c lastIndex isBackground = e"
    unfolding redirect_and_exec_def chain_def[symmetric] e by simp
  ultimately show ?thesis by simp
qed

lemma tryToRunCommand_good:
  "clean (c_events c0) \<Longrightarrow> good_ending (tryToRunCommand os c0 isBackground)"
  by (simp add: tryToRunCommand_def Let_def redirect_and_exec_good split: option.splits)

text \<open>
  Whatever the argument array, a child ends in one of these ways: it crashes or its program
  is replaced after nothing but successful opens, or it exits with status 1 after a failed
  open or a failed \<open>execvp\<close> and the matching message, which are its last two events.
\<close>

lemma child_process_good:
  "\<exists>e. good_ending e \<and> child_process os w a isBackground
          = (case e of Returned r c \<Rightarrow> Exited 1 c | other \<Rightarrow> other)"
proof -
  let ?c0 = "\<lparr>c_argv = a, c_stdin = Inherited, c_stdout = Inherited,
                c_inputRedirected = False, c_outputRedirected = False,
                c_events = (if isBackground then [Sigaction SIGTSTP SIG_IGN]
                            else [Sigaction SIGINT SIG_DFL, Sigaction SIGTSTP SIG_IGN]),
                c_world = w\<rparr>"
  have "clean (c_events ?c0)" by simp
  then have "good_ending (tryToRunCommand os ?c0 isBackground)" by (rule tryToRunCommand_good)
  then show ?thesis
    unfolding child_process_def Let_def by blast
qed




section \<open>Lemmas about the interpreter loop\<close>

text \<open>
  Every argument array that the tokenizing hands to the dispatch holds a list of tokens in
  its first entries and \<open>NULL\<close> after them, and it holds at least one token when the
  tokenizer finds one.
\<close>

lemma argv_of_fill_None:
  "length toks < 512 \<Longrightarrow> (argv_of toks)[length toks := None] = argv_of toks"
  by (rule nth_equalityI) (auto simp: argv_of_nth nth_list_update)

lemma argv_of_fill_Some:
  "length toks < 512 \<Longrightarrow> (argv_of toks)[length toks := Some x] = argv_of (toks @ [x])"
  by (rule nth_equalityI) (auto simp: argv_of_nth nth_list_update nth_append)

lemma argv_of_empty: "replicate 512 None = argv_of []"
  by (simp add: argv_of_def)

lemma fill_arguments_argv_of:
  assumes "argumentArray = argv_of toks"
    and "token \<noteq> None \<longrightarrow> toks \<noteq> [] \<and> inputPositionToFill = min (length toks) 512"
  shows "\<exists>toks'. fill_arguments buf save token inputPositionToFill argumentArray = argv_of toks'
           \<and> (toks \<noteq> [] \<longrightarrow> toks' \<noteq> [])"
  using assms
proof (induction buf save token inputPositionToFill argumentArray arbitrary: toks
        rule: fill_arguments.induct)
  case (1 buf save token pos arr)
  show ?case
  proof (cases token)
    case None
    then show ?thesis using "1.prems" by (subst fill_arguments.simps) auto
  next
    case (Some t)
    obtain token' buf' save' where st: "strtok_at '' '' buf save = (token', buf', save')"
      by (cases "strtok_at '' '' buf save") auto
    from Some "1.prems" have ne: "toks \<noteq> []" and pos: "pos = min (length toks) 512" by simp_all
    show ?thesis
    proof (cases "pos \<le> 511")
      case True
      with pos have len: "pos = length toks" "length toks < 512" by (simp_all add: min_def split: if_splits)
      define toks2 where "toks2 = (case token' of None \<Rightarrow> toks | Some t' \<Rightarrow> toks @ [cstr buf' t'])"
      have arr': "arr[pos := map_option (cstr buf') token'] = argv_of toks2"
        unfolding len(1) "1.prems"(1) using len(2)
        by (cases token') (simp_all add: toks2_def argv_of_fill_None argv_of_fill_Some)
      have pre: "token' \<noteq> None \<longrightarrow> toks2 \<noteq> [] \<and> Suc pos = min (length toks2) 512"
        using len by (cases token') (simp_all add: toks2_def)
      from "1.IH"(1)[OF Some st[symmetric] refl True arr' pre]
      obtain toks' where "fill_arguments buf' save' token' (Suc pos)
              (arr[pos := map_option (cstr buf') token']) = argv_of toks'" "toks2 \<noteq> [] \<longrightarrow> toks' \<noteq> []"
        by blast
      moreover have "toks2 \<noteq> []" using ne by (cases token') (simp_all add: toks2_def)
      ultimately show ?thesis
        using Some st True by (subst fill_arguments.simps) auto
    next
      case False
      have pre: "token' \<noteq> None \<longrightarrow> toks \<noteq> [] \<and> pos = min (length toks) 512"
        using ne pos by simp
      from "1.IH"(2)[OF Some st[symmetric] refl False "1.prems"(1) pre]
      obtain toks' where "fill_arguments buf' save' token' pos arr = argv_of toks'"
        "toks \<noteq> [] \<longrightarrow> toks' \<noteq> []"
        by blast
      then show ?thesis
        using Some st False by (subst fill_arguments.simps) auto
    qed
  qed
qed

lemma tokenize_argv_of:
  "\<exists>toks. tokenize userInputFixed = argv_of toks
      \<and> (fst (strtok_at '' '' userInputFixed 0) \<noteq> None \<longrightarrow> toks \<noteq> [])"
proof -
  obtain token buf save where st: "strtok_at '' '' userInputFixed 0 = (token, buf, save)"
    by (cases "strtok_at '' '' userInputFixed 0") auto
  define toks where "toks = (case token of None \<Rightarrow> [] | Some t \<Rightarrow> [cstr buf t])"
  have a: "(replicate 512 None)[0 := map_option (cstr buf) token] = argv_of toks"
    using argv_of_fill_None[of "[]"] argv_of_fill_Some[of "[]"]
    by (cases token) (simp_all add: toks_def argv_of_empty)
  have p: "token \<noteq> None \<longrightarrow> toks \<noteq> [] \<and> 1 = min (length toks) 512"
    by (cases token) (simp_all add: toks_def)
  from fill_arguments_argv_of[OF a p, of buf save]
  obtain toks' where "fill_arguments buf save token 1 ((replicate 512 None)[0 := map_option (cstr buf) token])
       = argv_of toks'" "toks \<noteq> [] \<longrightarrow> toks' \<noteq> []"
    by blast
  moreover have "token \<noteq> None \<longrightarrow> toks \<noteq> []" by (cases token) (simp_all add: toks_def)
  ultimately show ?thesis
    by (auto simp: tokenize_def st)
qed

lemma parse_line_argv_of:
  "parse_line processID userInput = Inr (Some argumentArray) \<Longrightarrow> \<exists>toks. argumentArray = argv_of toks"
  using tokenize_argv_of
  by (auto simp: parse_line_def split: prod.splits option.splits sum.splits if_splits)

lemma emit_emit [simp]: "emit ys (emit xs s) = emit (xs @ ys) s"
  by (simp add: emit_def)

lemma trace_emit [simp]: "trace (emit evs s) = trace s @ evs"
  by (simp add: emit_def)

lemma chdir_token_exit_ok: "exit_ok t (chdir_token s p)"
  by (simp add: exit_ok_def chdir_token_def split: prod.splits)

lemma change_directory_exit_ok: "exit_ok t (change_directory s t' arg)"
  using chdir_token_exit_ok
  by (auto simp: change_directory_def exit_ok_def split: sum.splits option.splits)

lemma status_command_exit_ok: "exit_ok t (status_command s)"
  by (simp add: exit_ok_def status_command_def split: option.splits)

lemma background_branch_exit_ok: "exit_ok t (background_branch s t a)"
  by (simp add: exit_ok_def background_branch_def Let_def)

lemma foreground_branch_exit_ok: "exit_ok t (foreground_branch s t a)"
  by (simp add: exit_ok_def foreground_branch_def Let_def)

lemma spawn_command_exit_ok: "exit_ok t (spawn_command s t a)"
  using background_branch_exit_ok foreground_branch_exit_ok
  by (auto simp: spawn_command_def exit_ok_def split: option.splits sum.splits prod.splits)

lemma dispatch_exit:
  assumes "dispatch s t a = Exit code s'"
  shows "(code = 0 \<and> a ! 0 = Some ''exit'')
       \<or> (code = 1 \<and> fork_ret t = - 1 \<and> (\<exists>msg. last (trace s') = Perror msg))"
proof (cases "a ! 0")
  case None
  with assms show ?thesis by (simp add: dispatch_def)
next
  case (Some firstArgument)
  show ?thesis
  proof (cases "firstArgument = ''exit''")
    case True
    with assms Some show ?thesis
      by (simp add: dispatch_def shutdown_def split: if_splits)
  next
    case False
    have "exit_ok t (dispatch s t a)"
      using False Some change_directory_exit_ok[of t s t] status_command_exit_ok[of t s]
        spawn_command_exit_ok[of t s a]
      by (simp add: dispatch_def) (simp add: exit_ok_def)
    with assms show ?thesis by (simp add: exit_ok_def)
  qed
qed

lemma step_exit:
  assumes "step s t = Exit code s'"
  shows "(code = 0 \<and> (\<exists>a. parse_line (getpid_ret t) (getline_ret t) = Inr (Some a) \<and> a ! 0 = Some ''exit''))
       \<or> (code = 1 \<and> fork_ret t = - 1 \<and> (\<exists>msg. last (trace s') = Perror msg))"
proof (cases "parse_line (getpid_ret t) (getline_ret t)")
  case (Inl f)
  with assms show ?thesis by (simp add: step_def Let_def)
next
  case (Inr parsed)
  show ?thesis
  proof (cases parsed)
    case None
    with assms Inr show ?thesis by (simp add: step_def Let_def)
  next
    case (Some a)
    with assms Inr have "dispatch (emit (replicate (Suc (failed_reads t)) (Printf Prompt))
                            (reap_pass (reap_waitpid t) s)) t a = Exit code s'"
      by (simp add: step_def Let_def del: replicate_Suc)
    from dispatch_exit[OF this] Inr Some show ?thesis by auto
  qed
qed

lemma run_exit:
  "run s stimuli = Exit code s' \<Longrightarrow>
   \<exists>t. Line t \<in> set stimuli \<and>
     ((code = 0 \<and> (\<exists>a. parse_line (getpid_ret t) (getline_ret t) = Inr (Some a) \<and> a ! 0 = Some ''exit''))
      \<or> (code = 1 \<and> fork_ret t = - 1 \<and> (\<exists>msg. last (trace s') = Perror msg)))"
proof (induction s stimuli rule: run.induct)
  case (1 s)
  then show ?case by simp
next
  case (2 s waited rest)
  then show ?case by auto
next
  case (3 s t rest)
  show ?case
  proof (cases "step s t")
    case (Continue s1)
    with 3 show ?thesis by auto
  next
    case (Exit c s1)
    with 3 have "c = code" "s1 = s'" by simp_all
    with Exit step_exit[of s t code s'] show ?thesis by auto
  next
    case (Fault f s1)
    with 3 show ?thesis by simp
  next
    case (InChild b a s1)
    with 3 show ?thesis by simp
  qed
qed


lemma takeWhile_all: "\<forall>x\<in>set xs. P x \<Longrightarrow> takeWhile P xs = xs"
  by (simp add: takeWhile_eq_all_conv)

lemma strtok_whole:
  assumes "str \<noteq> []" and "NUL \<notin> set str" and "d \<notin> set str"
  shows "strtok_at [d] str 0 = (Some 0, str, length str) \<and> cstr str 0 = str"
proof -
  have c: "cstr str 0 = str"
    using assms(2) by (auto simp: cstr_def intro: takeWhile_all)
  have skip: "takeWhile (\<lambda>c. c = d) str = []"
    using assms(1,3) by (cases str) auto
  have tok: "takeWhile (\<lambda>c. c \<noteq> d) str = str"
    using assms(3) by (auto intro: takeWhile_all)
  show ?thesis
    using assms(1) by (simp add: strtok_at_def c skip tok Let_def)
qed


lemma argv_last:
  "xs \<noteq> [] \<Longrightarrow> length xs \<le> 512 \<Longrightarrow> argv_of xs ! (length xs - 1) = Some (last xs)"
  by (simp add: argv_of_nth last_conv_nth)

lemma last_token_background:
  assumes "toks \<noteq> []" and "length toks \<le> 512" and "last toks = ''&''"
    and "\<not> turnOffBackground s"
  shows "spawn_command s t (argv_of toks) = background_branch s t (argv_of toks)"
proof -
  have n: "nat (int (length toks) - 1) = length toks - 1" by simp
  have "argv_of toks ! (length toks - 1) = Some (last toks)"
    using assms(1,2) by (simp add: argv_of_nth last_conv_nth)
  then have "str_at (argv_of toks) (int (length toks) - 1) = Inr ''&''"
    using assms(1,2,3) by (simp add: str_at_def n)
  then show ?thesis
    using assms by (simp add: spawn_command_def find_last_argv_of strip_ampersand_def)
qed

lemma last_token_foreground_only:
  assumes "2 \<le> length toks" and "length toks \<le> 512" and "last toks = ''&''"
    and "last (butlast toks) \<noteq> ''&''" and "turnOffBackground s"
  shows "spawn_command s t (argv_of toks) = foreground_branch s t (argv_of (butlast toks))"
proof -
  have ne: "toks \<noteq> []" "butlast toks \<noteq> []" using assms(1) by (cases toks; cases "tl toks"; simp)+
  have n: "nat (int (length toks) - 1) = length toks - 1"
    "nat (int (length toks) - 1 - 1) = length toks - 2" by simp_all
  have "argv_of toks ! (length toks - 1) = Some (last toks)"
    using ne assms(2) by (simp add: argv_of_nth last_conv_nth)
  then have l1: "str_at (argv_of toks) (int (length toks) - 1) = Inr ''&''"
    using ne assms(1,2,3) by (simp add: str_at_def n)
  have "length (butlast toks) - 1 = length toks - 2" by simp
  with argv_last[OF ne(2)] assms(2)
  have "argv_of (butlast toks) ! (length toks - 2) = Some (last (butlast toks))"
    by simp
  moreover have "length toks - 2 < 512" using assms(2) by simp
  ultimately have l2: "str_at (argv_of (butlast toks)) (int (length toks) - 1 - 1) = Inr (last (butlast toks))"
    unfolding str_at_def n using assms(1,2) by simp
  show ?thesis
    using assms(4,5) l1 l2 argv_of_strip[OF ne(1) assms(2)]
    by (simp add: spawn_command_def find_last_argv_of[OF ne(1) assms(2)] strip_ampersand_def
        and_then_def n)
qed

text \<open>
  The command lines of the examples, typed at the prompt, reach the child's side of \<open>fork\<close>
  with these argument arrays.
\<close>

lemma stray_operator_line:
  "(case step initial_shell (typed ''cat < in x >'' 0) of
      InChild isBackground argumentArray s \<Rightarrow>
        \<not> isBackground \<and> argumentArray = argv_of [''cat'', ''<'', ''in'', ''x'', ''>'']
    | _ \<Rightarrow> False)"
  by code_simp

lemma background_line:
  "(case step initial_shell (typed ''frobnicate &'' 0) of
      InChild isBackground argumentArray s \<Rightarrow>
        isBackground \<and> argumentArray = argv_of [''frobnicate'', ''&'']
    | _ \<Rightarrow> False)"
  by code_simp

lemma input_and_output_line:
  "(case step initial_shell (typed ''cat < missing > out'' 0) of
      InChild isBackground argumentArray s \<Rightarrow>
        \<not> isBackground \<and> argumentArray = argv_of [''cat'', ''<'', ''missing'', ''>'', ''out'']
    | _ \<Rightarrow> False)"
  by code_simp

section \<open>Claims\<close>

subsection \<open>C1: expansion of the marker\<close>

text \<open>
  C1 says that every complete \<open>$$\<close> marker of the line is replaced by the decimal process
  identifier, with all other characters kept, and that adjacent markers are each expanded.
  \<open>dollarsToPID\<close> is documented to convert any \<open>$$\<close>, and it does so for a line with one
  marker, a non-empty \<open>$\<close>-free text before it and a \<open>$\<close>-free text after it
  (\<open>dollarsToPID_single_marker\<close>); a line without marker, also one that ends in a single
  \<open>$\<close>, is returned as it is (\<open>dollarsToPID_without_marker\<close>). But the function cuts the
  line with the C library tokenizer at \<^emph>\<open>every\<close> \<open>$\<close>: after the first marker it copies one
  more \<open>$\<close>-free piece and then sees a shortened string, so the loop ends. On the line
  \<open>echo $$ $$\<close> with process identifier 1234 it returns \<open>echo 1234 \<close>: the second marker is
  lost instead of being expanded. (A line that starts with the marker passes a null pointer
  to \<open>strcat\<close>: \<open>dollarsToPID_leading_marker\<close>.)
\<close>

theorem dollarsToPID_second_marker_lost:
  "dollarsToPID 1234 ''echo $$ $$'' = Inr ''echo 1234 ''"
  by code_simp

subsection \<open>C2: the job table wraps and forgets\<close>

text \<open>
  C2: the table always has 200 slots and after any number of registrations from the start
  the insertion position is that number modulo 200. When 201 distinct process identifiers
  are registered with no reaping in between, the first 200 fill the table and the 201st is
  stored in slot 0 over the first one, with nothing printed but the usual
  ``background pid is'' line; from then on no sequence of reaping passes, whatever the
  kernel answers, reports the identifier that slot 0 held before.
\<close>

theorem job_table_wraps_and_forgets:
  assumes "length pids = 201" and "distinct pids" and "\<forall>p\<in>set pids. 0 < p"
  shows "(\<forall>ps. length (backgroundPIDs (fold register_background ps initial_shell)) = 200
             \<and> nextOpenPosition (fold register_background ps initial_shell) = length ps mod 200)
    \<and> backgroundPIDs (fold register_background (take 200 pids) initial_shell) ! 0 = pids ! 0
    \<and> backgroundPIDs (fold register_background pids initial_shell) ! 0 = pids ! 200
    \<and> trace (fold register_background pids initial_shell) =
        trace (fold register_background (take 200 pids) initial_shell) @ [Printf (BackgroundPidIs (pids ! 200))]
    \<and> (\<forall>waits. pids ! 0 \<notin> set (reported_pids
                    (trace (fold reap_pass waits (fold register_background pids initial_shell)))))"
proof -
  define s201 where "s201 = fold register_background pids initial_shell"
  have l200: "length (take 200 pids) = 200" using assms(1) by simp
  have t200: "backgroundPIDs (fold register_background (take 200 pids) initial_shell) = take 200 pids"
    "trace (fold register_background (take 200 pids) initial_shell)
       = trace initial_shell @ map (\<lambda>p. Printf (BackgroundPidIs p)) (take 200 pids)"
    using register_fold[of "take 200 pids"] l200 by simp_all
  have t201: "backgroundPIDs s201 = (take 200 pids)[0 := pids ! 200]"
    "trace s201 = trace (fold register_background (take 200 pids) initial_shell)
                    @ [Printf (BackgroundPidIs (pids ! 200))]"
    using register_overflow[OF assms(1)] by (simp_all add: s201_def)
  have A: "\<forall>ps. length (backgroundPIDs (fold register_background ps initial_shell)) = 200
             \<and> nextOpenPosition (fold register_background ps initial_shell) = length ps mod 200"
    using register_position by blast
  have hd: "take 200 pids = pids ! 0 # drop 1 (take 200 pids)"
    using assms(1) by (cases pids) simp_all
  have B: "backgroundPIDs (fold register_background (take 200 pids) initial_shell) ! 0 = pids ! 0"
    using t200(1) hd by (metis nth_Cons_0)
  have C: "backgroundPIDs s201 ! 0 = pids ! 200" using t201 l200 by simp
  have ne: "pids ! 0 \<noteq> pids ! 200"
    using assms(1,2) by (simp add: nth_eq_iff_index_eq)
  have "distinct (take 200 pids)" using assms(2) by simp
  with hd have "pids ! 0 \<notin> set (drop 1 (take 200 pids))"
    by (metis distinct.simps(2))
  moreover have "(take 200 pids)[0 := pids ! 200] = pids ! 200 # drop 1 (take 200 pids)"
    using assms(1) by (cases pids) simp_all
  ultimately have absent: "pids ! 0 \<notin> set (backgroundPIDs s201)"
    using ne t201 by simp
  have "pids ! 0 \<in> set pids" using assms(1) by simp
  then have pos: "pids ! 0 \<noteq> - 5" using assms(3) by fastforce
  have len201: "length (backgroundPIDs s201) = 200" using t201 l200 by simp
  have quiet: "pids ! 0 \<notin> set (reported_pids (trace s201))"
    unfolding t201(2) t200(2) by (simp add: initial_shell_def registrations_report_nothing)
  have D: "\<forall>waits. pids ! 0 \<notin> set (reported_pids (trace (fold reap_pass waits s201)))"
    using reap_passes_absent[OF absent pos len201 quiet] by simp
  show ?thesis
    using A B C D t201(2) by (simp add: s201_def)
qed

theorem job_table_wraps_and_forgets_witness:
  "length (map int [1..<202]) = 201 \<and> distinct (map int [1..<202]) \<and> 0 < Min (set (map int [1..<202]))
   \<and> backgroundPIDs (fold register_background (take 200 (map int [1..<202])) initial_shell) ! 0 = 1
   \<and> backgroundPIDs (fold register_background (map int [1..<202]) initial_shell) ! 0 = 201
   \<and> 1 \<notin> set (reported_pids (trace (reap_pass (\<lambda>i p. (p, Some 0))
                (fold register_background (map int [1..<202]) initial_shell))))"
proof -
  have h1: "length (map int [1..<202]) = 201" by simp
  have h2: "distinct (map int [1..<202])" by (simp add: distinct_map)
  have h3: "\<forall>p\<in>set (map int [1..<202]). 0 < p" by auto
  have m: "0 < Min (set (map int [1..<202]))" using h3 by (subst Min_gr_iff) auto
  from job_table_wraps_and_forgets[OF h1 h2 h3]
  have "backgroundPIDs (fold register_background (take 200 (map int [1..<202])) initial_shell) ! 0
          = map int [1..<202] ! 0"
    and "backgroundPIDs (fold register_background (map int [1..<202]) initial_shell) ! 0
          = map int [1..<202] ! 200"
    and "\<forall>waits. map int [1..<202] ! 0 \<notin> set (reported_pids
                    (trace (fold reap_pass waits (fold register_background (map int [1..<202]) initial_shell))))"
    by blast+
  from this(1,2) this(3)[rule_format, of "[\<lambda>i p. (p, Some 0)]"] h1 h2 m
  show ?thesis by (simp del: upt_Suc)
qed

subsection \<open>C3: accounting of occupied slots\<close>

text \<open>
  C3 as stated (occupied slots = background spawns issued - completions reaped, for every
  sequence) fails: the insertion position wraps by design, so the 201st spawn of a run in
  which nothing has finished overwrites slot 0. After 201 lines \<open>sleep 100 &\<close> the table holds
  200 identifiers although 201 spawns were issued and none was reaped.
\<close>

theorem accounting_fails_after_wraparound:
  "let s = state_of (run initial_shell
                       (map (\<lambda>k. Line (typed ''sleep 100 &'' (2000 + int k))) [0..<201]))
   in occupied_slots s = 200 \<and> spawns_issued (trace s) = 201 \<and> completions_reaped (trace s) = 0
      \<and> occupied_slots s \<noteq> spawns_issued (trace s) - completions_reaped (trace s)"
  using sleepers_overflow[of 201] unfolding Let_def by presburger

text \<open>
  C3 as amended: for every sequence of input lines and toggle signals in which \<open>fork\<close>
  returns \<open>- 1\<close>, \<open>0\<close> or a process identifier, the number of occupied slots is at most 200,
  and the occupied slots, the completions reaped and the identifiers overwritten while
  their slot was still occupied add up to the background spawns issued. So the number of
  occupied slots equals spawns issued minus completions reaped in every run in which no
  registration lands on an occupied slot; no registration does while at most 200 spawns
  have been issued. Spawns are counted by the ``background pid is'' lines and completions
  by the ``background pid ... is done'' lines of the trace.
\<close>

theorem job_table_accounting:
  assumes "\<forall>t. Line t \<in> set stimuli \<longrightarrow> - 1 \<le> fork_ret t"
  shows "let s = state_of (run initial_shell stimuli)
         in occupied_slots s \<le> 200
          \<and> occupied_slots s + completions_reaped (trace s) + overwritten initial_shell stimuli
              = spawns_issued (trace s)
          \<and> (overwritten initial_shell stimuli = 0 \<longrightarrow>
               occupied_slots s = spawns_issued (trace s) - completions_reaped (trace s))
          \<and> (spawns_issued (trace s) \<le> 200 \<longrightarrow> overwritten initial_shell stimuli = 0)"
proof -
  define s where "s = state_of (run initial_shell stimuli)"
  have init: "occupied_slots initial_shell = 0" "completions_reaped (trace initial_shell) = 0"
    "spawns_issued (trace initial_shell) = 0"
    by (simp_all add: initial_shell_def occupied_slots_def)
  from run_accounting[OF jobs_inv_initial assms]
  have inv: "jobs_inv s"
    and bal: "occupied_slots s + completions_reaped (trace s) + overwritten initial_shell stimuli
                = spawns_issued (trace s)"
    and few: "spawns_issued (trace s) \<le> 200 \<longrightarrow> overwritten initial_shell stimuli = 0"
    unfolding s_def init by simp_all
  from inv have "length (backgroundPIDs s) = 200" by (simp add: jobs_inv_def)
  then have "occupied_slots s \<le> 200"
    unfolding occupied_slots_def by (metis length_filter_le)
  with bal few show ?thesis
    unfolding Let_def s_def[symmetric] by presburger
qed

theorem job_table_accounting_witness:
  "- 1 \<le> fork_ret (typed ''sleep 100 &'' 4242)
   \<and> - 1 \<le> fork_ret ((typed ''status'' 0)\<lparr>reap_waitpid := \<lambda>reaperIndex pid. (pid, Some 0)\<rparr>)
   \<and> - 1 \<le> fork_ret (typed ''sleep 100 &'' 4243)
   \<and> spawns_issued (trace (state_of (run initial_shell
         [Line (typed ''sleep 100 &'' 4242),
          Line ((typed ''status'' 0)\<lparr>reap_waitpid := \<lambda>reaperIndex pid. (pid, Some 0)\<rparr>),
          Line (typed ''sleep 100 &'' 4243)]))) = 2
   \<and> completions_reaped (trace (state_of (run initial_shell
         [Line (typed ''sleep 100 &'' 4242),
          Line ((typed ''status'' 0)\<lparr>reap_waitpid := \<lambda>reaperIndex pid. (pid, Some 0)\<rparr>),
          Line (typed ''sleep 100 &'' 4243)]))) = 1
   \<and> occupied_slots (state_of (run initial_shell
         [Line (typed ''sleep 100 &'' 4242),
          Line ((typed ''status'' 0)\<lparr>reap_waitpid := \<lambda>reaperIndex pid. (pid, Some 0)\<rparr>),
          Line (typed ''sleep 100 &'' 4243)])) = 1
   \<and> overwritten initial_shell
         [Line (typed ''sleep 100 &'' 4242),
          Line ((typed ''status'' 0)\<lparr>reap_waitpid := \<lambda>reaperIndex pid. (pid, Some 0)\<rparr>),
          Line (typed ''sleep 100 &'' 4243)] = 0
   \<and> overwritten initial_shell
         (map (\<lambda>k. Line (typed ''sleep 100 &'' (2000 + int k))) [0..<201]) = 1"
proof -
  let ?stimuli = "[Line (typed ''sleep 100 &'' 4242),
          Line ((typed ''status'' 0)\<lparr>reap_waitpid := \<lambda>reaperIndex pid. (pid, Some 0)\<rparr>),
          Line (typed ''sleep 100 &'' 4243)]"
  have f: "- 1 \<le> fork_ret (typed ''sleep 100 &'' 4242)"
    "- 1 \<le> fork_ret ((typed ''status'' 0)\<lparr>reap_waitpid := \<lambda>reaperIndex pid. (pid, Some 0)\<rparr>)"
    "- 1 \<le> fork_ret (typed ''sleep 100 &'' 4243)"
    by simp_all
  then have h: "\<forall>t. Line t \<in> set ?stimuli \<longrightarrow> - 1 \<le> fork_ret t" by auto
  have tr: "trace (state_of (run initial_shell ?stimuli)) =
     [Sigaction SIGINT SIG_IGN, Sigaction SIGTSTP Handler,
      Printf Prompt, Fork 4242, Printf (BackgroundPidIs 4242),
      Waitpid 4242 WNOHANG, Printf (BackgroundDoneExit 4242 0), Printf Prompt, Printf (ExitValue 0),
      Printf Prompt, Fork 4243, Printf (BackgroundPidIs 4243)]"
    by code_simp
  have sp: "spawns_issued (trace (state_of (run initial_shell ?stimuli))) = 2"
    and rp: "completions_reaped (trace (state_of (run initial_shell ?stimuli))) = 1"
    unfolding tr by simp_all
  note acc = job_table_accounting[OF h, unfolded Let_def]
  have small: "occupied_slots (state_of (run initial_shell ?stimuli)) = 1
               \<and> overwritten initial_shell ?stimuli = 0"
    by (rule accounting_arith_small[OF conjunct1[OF conjunct2[OF acc]]
          conjunct2[OF conjunct2[OF conjunct2[OF acc]]] sp rp])
  have h201: "\<forall>t. Line t \<in> set (map (\<lambda>k. Line (typed ''sleep 100 &'' (2000 + int k))) [0..<n])
                \<longrightarrow> - 1 \<le> fork_ret t" for n
    by auto
  note acc201 = job_table_accounting[OF h201[of 201], unfolded Let_def]
  note over = sleepers_overflow[OF refl, unfolded Let_def]
  have big: "overwritten initial_shell
               (map (\<lambda>k. Line (typed ''sleep 100 &'' (2000 + int k))) [0..<201]) = 1"
    by (rule accounting_arith_overflow[OF conjunct1[OF conjunct2[OF acc201]] over])
  from f sp rp small big show ?thesis by blast
qed

subsection \<open>C4: the background marker in foreground-only mode\<close>

text \<open>
  C4 says that in foreground-only mode a command whose final token is \<open>&\<close> is never marked
  background. The interpreter removes one trailing \<open>&\<close> in that mode and then tests the new
  last token again: for \<open>sleep 5 & &\<close>, entered after the toggle signal has switched
  foreground-only mode on, the second test finds \<open>&\<close>, the command is forked in the
  background branch, ``background pid is 4242'' is printed and the child is registered in
  the job table without being waited for. (With a single trailing \<open>&\<close> the claim holds:
  lemmas \<open>last_token_background\<close> and \<open>last_token_foreground_only\<close>.)
\<close>

theorem double_ampersand_runs_in_background:
  "(case run initial_shell [Signal_TSTP None, Line (typed ''sleep 5 & &'' 4242)] of
      Continue s \<Rightarrow>
        turnOffBackground s
        \<and> drop 5 (trace s) = [Printf Prompt, Fork 4242, Printf (BackgroundPidIs 4242)]
        \<and> backgroundPIDs s ! 0 = 4242
    | _ \<Rightarrow> False)"
  by code_simp

subsection \<open>C5: where redirection operators are recognized\<close>

text \<open>
  C5 says that a recognized pair is removed from the argument vector passed to program
  replacement and that \<open><\<close> and \<open>>\<close> tokens anywhere else are passed through as ordinary
  arguments. \<open>tryToRunCommand\<close> means to do so (line 141: ``< and fileName are not included
  in execvp call''), but it removes a pair by storing \<open>NULL\<close> in its two entries, and program
  replacement reads the array only up to the first \<open>NULL\<close>. When the pair stands in the last
  two positions nothing is lost. When only the pair in the second-to-last two positions is
  recognized, the two tokens after it are lost as well: for \<open>cat < in x >\<close> the pair \<open>< in\<close>
  is consumed and the program receives just \<open>cat\<close>, neither the argument \<open>x\<close> nor the
  literal \<open>>\<close>. (Lemma \<open>child_reaches_execvp\<close>: the program always receives the tokens
  before the first recognized pair; \<open>trailing_arguments_are_dropped\<close> and
  \<open>pairs_at_the_end\<close> are further examples; \<open>stray_operator_line\<close>: the line as it is
  typed gives the child this argument array.)
\<close>

theorem stray_operator_is_dropped:
  "(case tryToRunCommand example_os
           (fresh_child [''in''] (argv_of [''cat'', ''<'', ''in'', ''x'', ''>''])) False
    of Replaced prog args c \<Rightarrow>
         args = [''cat'']
         \<and> c_events c = [Open ''in'' O_RDONLY True, Dup2 0, Execvp ''cat'' [''cat''] True]
    | _ \<Rightarrow> False)"
  by code_simp

subsection \<open>C6: failures in the child\<close>




subsection \<open>C7: the interpreter's exit code\<close>

text \<open>
  C7 as stated fails in its first half: when \<open>fork\<close> fails the interpreter calls \<open>perror\<close> and
  then \<open>exit(1)\<close>, so its exit code is 1, not 0.
\<close>

theorem fork_failure_exits_with_1:
  "(case run initial_shell [Line (typed ''ls'' (- 1))] of
      Exit code s \<Rightarrow> code = 1 \<and> last (trace s) = Perror (''Major problem creating child!'' @ [LF])
    | _ \<Rightarrow> False)"
  by code_simp


text \<open>
  C7 as amended: whenever a run of the interpreter exits, either a line whose first token is
  \<open>exit\<close> was read and the exit code is 0, or \<open>fork\<close> failed, the last thing the interpreter
  did was report it with \<open>perror\<close>, and the exit code is 1. The \<open>exit\<close> built-in always ends
  the interpreter with code 0, and a failed \<open>fork\<close> always ends it with code 1 after the
  report, in the foreground and in the background branch.
\<close>

theorem interpreter_exit_codes:
  "(run s stimuli = Exit code s' \<longrightarrow>
      (\<exists>t. Line t \<in> set stimuli \<and>
         ((code = 0 \<and> (\<exists>a. parse_line (getpid_ret t) (getline_ret t) = Inr (Some a)
                            \<and> a ! 0 = Some ''exit''))
          \<or> (code = 1 \<and> fork_ret t = - 1 \<and> (\<exists>msg. last (trace s') = Perror msg)))))
   \<and> (a ! 0 = Some ''exit'' \<longrightarrow> (\<exists>s''. dispatch s t a = Exit 0 s''))
   \<and> (fork_ret t = - 1 \<longrightarrow>
        foreground_branch s t a
          = Exit 1 (emit [Fork (- 1), Perror (''Major problem creating child!'' @ [LF])] s)
        \<and> background_branch s t a
          = Exit 1 (emit [Fork (- 1), Perror (''Major problem creating background child!'' @ [LF])] s))"
proof -
  have A: "a ! 0 = Some ''exit'' \<longrightarrow> (\<exists>s''. dispatch s t a = Exit 0 s'')"
    by (simp add: dispatch_def shutdown_def)
  have B: "fork_ret t = - 1 \<longrightarrow>
        foreground_branch s t a
          = Exit 1 (emit [Fork (- 1), Perror (''Major problem creating child!'' @ [LF])] s)
        \<and> background_branch s t a
          = Exit 1 (emit [Fork (- 1), Perror (''Major problem creating background child!'' @ [LF])] s)"
    by (simp add: foreground_branch_def background_branch_def Let_def)
  show ?thesis
    using run_exit[of s stimuli code s'] A B by blast
qed

theorem interpreter_exit_codes_witness:
  "(\<exists>s'. run initial_shell [Line (typed ''sleep 100 &'' 4242), Line (typed ''exit'' 0)] = Exit 0 s')
   \<and> fork_ret (typed ''ls'' (- 1)) = - 1
   \<and> foreground_branch initial_shell (typed ''ls'' (- 1)) (argv_of [''ls''])
               = Exit 1 (emit [Fork (- 1), Perror (''Major problem creating child!'' @ [LF])] initial_shell)
   \<and> argv_of [''exit''] ! 0 = Some ''exit''
   \<and> (\<exists>s''. dispatch initial_shell (typed ''exit'' 0) (argv_of [''exit'']) = Exit 0 s'')"
proof -
  let ?stimuli = "[Line (typed ''sleep 100 &'' 4242), Line (typed ''exit'' 0)]"
  have "case run initial_shell ?stimuli of Exit code s \<Rightarrow> code = 0 | _ \<Rightarrow> False"
    by code_simp
  then obtain s' where h1: "run initial_shell ?stimuli = Exit 0 s'"
    by (cases "run initial_shell ?stimuli") simp_all
  have h2: "fork_ret (typed ''ls'' (- 1)) = - 1" by (simp add: typed_def)
  have h3: "argv_of [''exit''] ! 0 = Some ''exit''" by (simp add: argv_head)
  from interpreter_exit_codes[of initial_shell ?stimuli 0 s' "argv_of [''ls'']" "typed ''ls'' (- 1)"] h1 h2
  have r1: "foreground_branch initial_shell (typed ''ls'' (- 1)) (argv_of [''ls''])
               = Exit 1 (emit [Fork (- 1), Perror (''Major problem creating child!'' @ [LF])] initial_shell)"
    by blast
  from interpreter_exit_codes[of initial_shell ?stimuli 0 s' "argv_of [''exit'']" "typed ''exit'' 0"] h3
  have r2: "\<exists>s''. dispatch initial_shell (typed ''exit'' 0) (argv_of [''exit'']) = Exit 0 s''"
    by blast
  show ?thesis using h1 h2 h3 r1 r2 by blast
qed

subsection \<open>C8: the handler of the toggle signal\<close>

text \<open>
  C8: on each delivery the handler first waits (blocking) on the process identifier recorded
  in \<open>currentForegroundPID\<close>, then flips \<open>turnOffBackground\<close>, then writes exactly one of
  the two fixed messages with \<open>write\<close> on standard output: the ``Entering'' message when
  the flag was off, the ``Exiting'' message when it was on. The byte counts 30 and 50 passed
  to \<open>write\<close> cover each message completely.
\<close>

theorem catchSIGTSTP_wait_flip_write:
  "trace (catchSIGTSTP waited s) =
     trace s @ [Waitpid (currentForegroundPID s) Blocking,
                SetTurnOffBackground (\<not> turnOffBackground s),
                WriteStdout (if turnOffBackground s
                             then LF # ''Exiting foreground-only mode'' @ [LF]
                             else LF # ''Entering foreground-only mode (& is now ignored)'' @ [LF])]
   \<and> turnOffBackground (catchSIGTSTP waited s) = (\<not> turnOffBackground s)"
  by (simp add: catchSIGTSTP_def emit_def Let_def)

subsection \<open>C9: the directory passed by cd\<close>

text \<open>
  C9: for a \<open>cd\<close> with an argument that begins with \<open>/\<close>, the directory passed to \<open>chdir\<close> is
  the value of \<open>HOME\<close> followed by the argument (so not the absolute path itself unless
  \<open>HOME\<close> is empty); an argument that does not begin with \<open>/\<close> is appended to the current
  working directory and a \<open>/\<close>. The environment is assumed well formed: \<open>HOME\<close> is set,
  the strings contain no newline, and the concatenation fits the 2048-byte buffer.
\<close>

theorem cd_argument_resolution:
  assumes "a ! 0 = Some ''cd''" and "a ! 1 = Some arg"
    and "arg \<noteq> []" and "NUL \<notin> set arg" and "LF \<notin> set arg"
  shows "(hd arg = CHR ''/'' \<and> getenv_HOME t = Some home \<and> NUL \<notin> set home \<and> LF \<notin> set home
            \<and> length home + length arg < 2048
          \<longrightarrow> dispatch s t a = Continue (emit [Chdir (Some (home @ arg))] s))
       \<and> (hd arg \<noteq> CHR ''/'' \<and> getcwd_ret t = Some cwd \<and> NUL \<notin> set cwd \<and> LF \<notin> set cwd
            \<and> length cwd + 1 + length arg < 2048
          \<longrightarrow> dispatch s t a = Continue (emit [Chdir (Some (cwd @ ''/'' @ arg))] s))"
proof -
  have d: "dispatch s t a = change_directory s t arg"
    using assms(1,2) by (simp add: dispatch_def)
  obtain c rest where arg: "arg = c # rest" using assms(3) by (cases arg) auto
  have A: "hd arg = CHR ''/'' \<and> getenv_HOME t = Some home \<and> NUL \<notin> set home \<and> LF \<notin> set home
            \<and> length home + length arg < 2048
          \<longrightarrow> dispatch s t a = Continue (emit [Chdir (Some (home @ arg))] s)"
  proof
    assume h: "hd arg = CHR ''/'' \<and> getenv_HOME t = Some home \<and> NUL \<notin> set home \<and> LF \<notin> set home
            \<and> length home + length arg < 2048"
    then have "home @ arg \<noteq> []" "NUL \<notin> set (home @ arg)" "LF \<notin> set (home @ arg)"
      using assms(3,4,5) by simp_all
    from strtok_whole[OF this]
    have "chdir_token s (home @ arg) = Continue (emit [Chdir (Some (home @ arg))] s)"
      by (simp add: chdir_token_def)
    then show "dispatch s t a = Continue (emit [Chdir (Some (home @ arg))] s)"
      using h arg by (simp add: d change_directory_def strcat_cap_def and_then_def)
  qed
  have B: "hd arg \<noteq> CHR ''/'' \<and> getcwd_ret t = Some cwd \<and> NUL \<notin> set cwd \<and> LF \<notin> set cwd
            \<and> length cwd + 1 + length arg < 2048
          \<longrightarrow> dispatch s t a = Continue (emit [Chdir (Some (cwd @ ''/'' @ arg))] s)"
  proof
    assume h: "hd arg \<noteq> CHR ''/'' \<and> getcwd_ret t = Some cwd \<and> NUL \<notin> set cwd \<and> LF \<notin> set cwd
            \<and> length cwd + 1 + length arg < 2048"
    then have "cwd @ ''/'' @ arg \<noteq> []" "NUL \<notin> set (cwd @ ''/'' @ arg)" "LF \<notin> set (cwd @ ''/'' @ arg)"
      using assms(3,4,5) by (simp_all add: NUL_def)
    from strtok_whole[OF this]
    have "chdir_token s (cwd @ ''/'' @ arg) = Continue (emit [Chdir (Some (cwd @ ''/'' @ arg))] s)"
      by (simp add: chdir_token_def)
    then show "dispatch s t a = Continue (emit [Chdir (Some (cwd @ ''/'' @ arg))] s)"
      using h arg by (simp add: d change_directory_def strcat_cap_def and_then_def)
  qed
  show ?thesis using A B by blast
qed

theorem cd_argument_resolution_witness:
  "argv_of [''cd'', ''/tmp''] ! 0 = Some ''cd'' \<and> argv_of [''cd'', ''/tmp''] ! 1 = Some ''/tmp''
   \<and> hd ''/tmp'' = CHR ''/'' \<and> getenv_HOME (typed ''cd /tmp'' 0) = Some ''/home/user''
   \<and> dispatch initial_shell (typed ''cd /tmp'' 0) (argv_of [''cd'', ''/tmp''])
       = Continue (emit [Chdir (Some ''/home/user/tmp'')] initial_shell)
   \<and> argv_of [''cd'', ''src''] ! 1 = Some ''src'' \<and> hd ''src'' \<noteq> CHR ''/''
   \<and> getcwd_ret (typed ''cd src'' 0) = Some ''/tmp''
   \<and> dispatch initial_shell (typed ''cd src'' 0) (argv_of [''cd'', ''src''])
       = Continue (emit [Chdir (Some ''/tmp/src'')] initial_shell)"
proof -
  have a: "argv_of [''cd'', ''/tmp''] ! 0 = Some ''cd''" "argv_of [''cd'', ''/tmp''] ! 1 = Some ''/tmp''"
    "argv_of [''cd'', ''src''] ! 0 = Some ''cd''" "argv_of [''cd'', ''src''] ! 1 = Some ''src''"
    by (simp_all add: argv_of_nth)
  have e: "getenv_HOME (typed ''cd /tmp'' 0) = Some ''/home/user''"
    "getcwd_ret (typed ''cd src'' 0) = Some ''/tmp''"
    by (simp_all add: typed_def)
  have r1: "dispatch initial_shell (typed ''cd /tmp'' 0) (argv_of [''cd'', ''/tmp''])
       = Continue (emit [Chdir (Some ''/home/user/tmp'')] initial_shell)"
    using cd_argument_resolution[OF a(1,2), where t = "typed ''cd /tmp'' 0" and home = "''/home/user''"
        and cwd = "''''" and s = initial_shell] e
    by (simp add: NUL_def)
  have r2: "dispatch initial_shell (typed ''cd src'' 0) (argv_of [''cd'', ''src''])
       = Continue (emit [Chdir (Some ''/tmp/src'')] initial_shell)"
    using cd_argument_resolution[OF a(3,4), where t = "typed ''cd src'' 0" and home = "''''"
        and cwd = "''/tmp''" and s = initial_shell] e
    by (simp add: NUL_def)
  show ?thesis using a e r1 r2 by simp
qed

subsection \<open>C10: the first token of a dispatched line\<close>

text \<open>
  C10 says that every line that survives the stripping of its newline has a first token.
  A line of three spaces survives it (the tokenizer for \<open>\n\<close> returns the spaces), but the
  tokenizer for spaces then finds no token: entry 0 of the argument array stays \<open>NULL\<close> and
  the unguarded \<open>strcpy(firstArgument, argumentArray[0])\<close> reads through a null pointer.
\<close>

theorem spaces_only_line_reads_missing_token:
  "(case parse_line 1234 (''   '' @ [LF]) of
      Inr (Some argumentArray) \<Rightarrow> argumentArray ! 0 = None
    | _ \<Rightarrow> False)
   \<and> (case step initial_shell (typed ''   '' 4242) of
      Fault f s \<Rightarrow> f = NullDeref
    | _ \<Rightarrow> False)"
  by code_simp


end
